theory Spec2Isabelle
  imports Main "HOL-Library.AList"
begin

section \<open>PX4ParameterMetaData.cc: value types\<close>

text \<open>
  \<^verbatim>\<open>FactMetaData::ValueType_t\<close>, the declared type of a parameter: the eight enumerators
  the file names (lines 58-72).
\<close>

datatype ValueType_t =
    valueTypeUint8 | valueTypeInt8
  | valueTypeUint16 | valueTypeInt16
  | valueTypeUint32 | valueTypeInt32
  | valueTypeFloat | valueTypeDouble

section \<open>PX4ParameterMetaData.cc: the meta data store\<close>

subsection \<open>The XML token stream\<close>

text \<open>
  \<^verbatim>\<open>QXmlStreamReader\<close> is a pull parser: each \<^verbatim>\<open>readNext()\<close> delivers one token. The
  document is the list of the tokens it delivers, in order; the list ends where
  \<^verbatim>\<open>atEnd()\<close> becomes true (the end of the document, or the first token the reader
  cannot parse). A start element carries its name and its attributes, \<open>Characters\<close> is
  character data (or an entity reference), \<open>Comment\<close> a comment or a processing
  instruction, \<open>OtherToken\<close> any other token (the document start, a DTD).
\<close>

datatype xml_token =
    StartElement string "(string \<times> string) list"
  | EndElement string
  | Characters string
  | Comment
  | OtherToken

text \<open>\<^verbatim>\<open>xml.attributes().hasAttribute(n)\<close> and \<^verbatim>\<open>xml.attributes().value(n).toString()\<close>.\<close>

definition hasAttribute :: "(string \<times> string) list \<Rightarrow> string \<Rightarrow> bool" where
  "hasAttribute attrs n = (map_of attrs n \<noteq> None)"

definition attributeValue :: "(string \<times> string) list \<Rightarrow> string \<Rightarrow> string" where
  "attributeValue attrs n = (case map_of attrs n of Some v \<Rightarrow> v | None \<Rightarrow> [])"

text \<open>
  \<^verbatim>\<open>xml.readElementText()\<close>, called on a start element, with the tokens that follow it:
  it collects character data up to the next end element, which it consumes, and
  returns the text and the tokens left after that end element. A child element, any
  other token or the end of the stream raises the reader's error: the text read so
  far is returned and the reader is at its end, so that no token is left.
\<close>

fun readElementText :: "xml_token list \<Rightarrow> string \<times> xml_token list" where
  "readElementText [] = ([], [])"
| "readElementText (Characters c # ts) =
     (case readElementText ts of (r, rest) \<Rightarrow> (c @ r, rest))"
| "readElementText (Comment # ts) = readElementText ts"
| "readElementText (EndElement n # ts) = ([], ts)"
| "readElementText (StartElement n attrs # ts) = ([], [])"
| "readElementText (OtherToken # ts) = ([], [])"

subsection \<open>FactMetaData objects and the static members\<close>

text \<open>
  Modelled from the spec: the class \<^verbatim>\<open>FactMetaData\<close> (FactMetaData.h/.cc are not among the
  sources). The spec's ParameterMetadata has a type, inclusive min/max, a default, an
  enum value-to-label mapping, a decimal precision, a reboot-required flag and a group
  name; the setters the loader calls add the name, the two descriptions and the units.
  A field that no setter has touched holds what the constructor left: \<open>None\<close>, the
  empty string, \<open>False\<close>, the empty list. The type of raw values (\<^verbatim>\<open>QVariant\<close>) is \<open>'v\<close>.
\<close>

record 'v FactMetaData =
  md_type :: ValueType_t
  md_name :: string
  md_group :: string
  md_rawDefaultValue :: "'v option"
  md_shortDescription :: string
  md_longDescription :: string
  md_rawMin :: "'v option"
  md_rawMax :: "'v option"
  md_rawUnits :: string
  md_decimalPlaces :: "int option"
  md_rebootRequired :: bool
  md_enumInfo :: "(string \<times> 'v) list"

text \<open>\<^verbatim>\<open>new FactMetaData(type)\<close>: only the type is set.\<close>

definition newFactMetaData :: "ValueType_t \<Rightarrow> 'v FactMetaData" where
  "newFactMetaData t =
     \<lparr> md_type = t, md_name = [], md_group = [], md_rawDefaultValue = None,
       md_shortDescription = [], md_longDescription = [], md_rawMin = None,
       md_rawMax = None, md_rawUnits = [], md_decimalPlaces = None,
       md_rebootRequired = False, md_enumInfo = [] \<rparr>"

text \<open>\<^verbatim>\<open>metaData->defaultValueAvailable()\<close>.\<close>

definition defaultValueAvailable :: "'v FactMetaData \<Rightarrow> bool" where
  "defaultValueAvailable m = (md_rawDefaultValue m \<noteq> None)"

text \<open>
  What the loader calls and this file does not define:
  \<^item> \<open>lib_stringToType\<close>: \<^verbatim>\<open>FactMetaData::stringToType(type, unknownType)\<close>, \<open>None\<close> when
    \<^verbatim>\<open>unknownType\<close> is set;
  \<^item> \<open>lib_convertAndValidateRaw\<close>: \<^verbatim>\<open>metaData->convertAndValidateRaw(text, convertOnly,
    typedValue, errorString)\<close> on a string, \<open>Some typedValue\<close> when it returns true;
  \<^item> \<open>lib_validateTyped\<close>: the same call on a raw value that is already a variant, as at
    the end of a parameter element, where only its verdict is used;
  \<^item> \<open>lib_toInt\<close>, \<open>lib_toUInt\<close>: \<^verbatim>\<open>QString::toInt(&ok)\<close> and \<^verbatim>\<open>QVariant(text).toUInt(&ok)\<close>,
    \<open>None\<close> when \<^verbatim>\<open>ok\<close> is false.
\<close>

record 'v library =
  lib_stringToType :: "string \<Rightarrow> ValueType_t option"
  lib_convertAndValidateRaw :: "'v FactMetaData \<Rightarrow> string \<Rightarrow> bool \<Rightarrow> 'v option"
  lib_validateTyped :: "'v FactMetaData \<Rightarrow> 'v \<Rightarrow> bool"
  lib_toInt :: "string \<Rightarrow> int option"
  lib_toUInt :: "string \<Rightarrow> nat option"

text \<open>The warnings and the debug lines of the early returns, in the order they are written.\<close>

datatype log_entry =
    BadlyFormedXML
  | VersionTooOld int
  | VersionNotFound
  | BadType string string
  | DuplicateParameter string
  | InvalidDefault string
  | InvalidMin string
  | InvalidMax string
  | InvalidDecimals string
  | InvalidEnumValue string
  | UnknownElement string

text \<open>
  The static members \<^verbatim>\<open>_parameterMetaDataLoaded\<close> and \<^verbatim>\<open>_mapParameterName2FactMetaData\<close>.
  The map holds pointers: \<open>heap\<close> is the store of the \<^verbatim>\<open>FactMetaData\<close> objects allocated
  so far, a pointer is an index into it and \<^verbatim>\<open>new\<close> appends. \<open>logged\<close> is the log output.
\<close>

record 'v px4_state =
  parameterMetaDataLoaded :: bool
  mapParameterName2FactMetaData :: "(string \<times> nat) list"
  heap :: "'v FactMetaData list"
  logged :: "log_entry list"

text \<open>The state at program start: the static initialisers of lines 38-39.\<close>

definition initialState :: "'v px4_state" where
  "initialState =
     \<lparr> parameterMetaDataLoaded = False, mapParameterName2FactMetaData = [],
       heap = [], logged = [] \<rparr>"

definition mapContains :: "'v px4_state \<Rightarrow> string \<Rightarrow> bool" where
  "mapContains g name = (map_of (mapParameterName2FactMetaData g) name \<noteq> None)"

definition mapAssign :: "string \<Rightarrow> nat \<Rightarrow> 'v px4_state \<Rightarrow> 'v px4_state" where
  "mapAssign name p g =
     g\<lparr>mapParameterName2FactMetaData := AList.update name p (mapParameterName2FactMetaData g)\<rparr>"

definition allocate :: "'v FactMetaData \<Rightarrow> 'v px4_state \<Rightarrow> 'v px4_state" where
  "allocate m g = g\<lparr>heap := heap g @ [m]\<rparr>"

text \<open>A setter called through the pointer \<open>p\<close>.\<close>

definition through :: "nat \<Rightarrow> ('v FactMetaData \<Rightarrow> 'v FactMetaData) \<Rightarrow> 'v px4_state \<Rightarrow> 'v px4_state" where
  "through p f g = g\<lparr>heap := (heap g)[p := f (heap g ! p)]\<rparr>"

definition addLog :: "log_entry \<Rightarrow> 'v px4_state \<Rightarrow> 'v px4_state" where
  "addLog e g = g\<lparr>logged := logged g @ [e]\<rparr>"

text \<open>The states of the parser (\<^verbatim>\<open>xmlState\<close>) and the locals of the loop (lines 129-133).\<close>

datatype XmlState =
    XmlStateNone | XmlStateFoundParameters | XmlStateFoundVersion
  | XmlStateFoundGroup | XmlStateFoundParameter

record loop_state =
  factGroup :: string
  metaData :: "nat option"
  xmlState :: XmlState
  badMetaData :: bool

definition initialLoop :: loop_state where
  "initialLoop = \<lparr> factGroup = [], metaData = None, xmlState = XmlStateNone, badMetaData = True \<rparr>"

text \<open>
  What can stop the program: a \<^verbatim>\<open>Q_ASSERT\<close> that fails, or a call through
  the \<^verbatim>\<open>metaData\<close> pointer while it is \<^verbatim>\<open>NULL\<close>.
\<close>

datatype error = AssertFailed | NullPointer

text \<open>
  One pass of the loop body: the function returns (\<open>Return\<close>), the program stops
  (\<open>Crash\<close>), or the loop goes on with new locals, a new state and the tokens left.
\<close>

datatype 'v step_result =
    Return "'v px4_state"
  | Crash error
  | Continue loop_state "'v px4_state" "xml_token list"

text \<open>\<^verbatim>\<open>text.replace("\n", " ")\<close>.\<close>

definition replaceNewlines :: "string \<Rightarrow> string" where
  "replaceNewlines text = map (\<lambda>c. if c = CHR 0x0A then CHR '' '' else c) text"

text \<open>\<^verbatim>\<open>text.compare("true", Qt::CaseInsensitive) == 0\<close>.\<close>

fun isTrueCaseInsensitive :: "string \<Rightarrow> bool" where
  "isTrueCaseInsensitive [a, b, c, d] =
     ((a = CHR ''t'' \<or> a = CHR ''T'') \<and> (b = CHR ''r'' \<or> b = CHR ''R'') \<and>
      (c = CHR ''u'' \<or> c = CHR ''U'') \<and> (d = CHR ''e'' \<or> d = CHR ''E''))"
| "isTrueCaseInsensitive _ = False"

text \<open>\<^verbatim>\<open>varDecimals.toInt()\<close> on an unsigned 32-bit value: the upper half wraps to negative.\<close>

definition uintToInt :: "nat \<Rightarrow> int" where
  "uintToInt n = (if n < 2 ^ 31 then int n else int n - 2 ^ 32)"

subsection \<open>The loop body of \<^verbatim>\<open>_loadParameterFactMetaData\<close>\<close>

text \<open>
  Lines 182-232, the start of a \<^verbatim>\<open>parameter\<close> element. The new object is allocated
  before the map is looked up; in both branches the map entry of the name becomes the
  new pointer, and only the branch of a new name sets name, group and default.
\<close>

definition startParameter ::
  "'v library \<Rightarrow> loop_state \<Rightarrow> 'v px4_state \<Rightarrow> (string \<times> string) list \<Rightarrow> xml_token list
     \<Rightarrow> 'v step_result" where
  "startParameter L ls g attrs ts =
     (if xmlState ls \<noteq> XmlStateFoundGroup then Return (addLog BadlyFormedXML g)
      else if \<not> hasAttribute attrs ''name'' \<or> \<not> hasAttribute attrs ''type''
        then Return (addLog BadlyFormedXML g)
      else
        let name = attributeValue attrs ''name'';
            type = attributeValue attrs ''type'';
            strDefault = attributeValue attrs ''default''
        in case lib_stringToType L type of
             None \<Rightarrow> Return (addLog (BadType type name) g)
           | Some foundType \<Rightarrow>
               let p = length (heap g);
                   g1 = allocate (newFactMetaData foundType) g
               in if mapContains g1 name then
                    Continue (ls\<lparr>xmlState := XmlStateFoundParameter, metaData := Some p,
                                  badMetaData := True\<rparr>)
                             (mapAssign name p (addLog (DuplicateParameter name) g1)) ts
                  else
                    let g2 = mapAssign name p g1;
                        g3 = through p (\<lambda>m. m\<lparr>md_name := name\<rparr>) g2;
                        g4 = through p (\<lambda>m. m\<lparr>md_group := factGroup ls\<rparr>) g3;
                        g5 = (if hasAttribute attrs ''default'' \<and> strDefault \<noteq> [] then
                                (case lib_convertAndValidateRaw L (heap g4 ! p) strDefault False of
                                   Some varDefault \<Rightarrow>
                                     through p (\<lambda>m. m\<lparr>md_rawDefaultValue := Some varDefault\<rparr>) g4
                                 | None \<Rightarrow> addLog (InvalidDefault name) g4)
                              else g4)
                    in Continue (ls\<lparr>xmlState := XmlStateFoundParameter, metaData := Some p\<rparr>) g5 ts)"

text \<open>
  Lines 234-329, any other start element: it must stand inside a parameter, and it
  is looked at only while \<^verbatim>\<open>badMetaData\<close> is false. The branches that read the element
  text consume the tokens up to its end element. \<^verbatim>\<open>Q_ASSERT(metaData)\<close> comes first in
  the branches that have it; the \<^verbatim>\<open>value\<close> branch calls through the pointer unchecked.
\<close>

definition metaDataElement ::
  "'v library \<Rightarrow> loop_state \<Rightarrow> 'v px4_state \<Rightarrow> string \<Rightarrow> (string \<times> string) list
     \<Rightarrow> xml_token list \<Rightarrow> 'v step_result" where
  "metaDataElement L ls g elementName attrs ts =
     (if xmlState ls \<noteq> XmlStateFoundParameter then Return (addLog BadlyFormedXML g)
      else if badMetaData ls then Continue ls g ts
      else if elementName = ''short_desc'' then
        (case metaData ls of None \<Rightarrow> Crash AssertFailed
         | Some p \<Rightarrow> (case readElementText ts of (text, ts') \<Rightarrow>
             Continue ls (through p (\<lambda>m. m\<lparr>md_shortDescription := replaceNewlines text\<rparr>) g) ts'))
      else if elementName = ''long_desc'' then
        (case metaData ls of None \<Rightarrow> Crash AssertFailed
         | Some p \<Rightarrow> (case readElementText ts of (text, ts') \<Rightarrow>
             Continue ls (through p (\<lambda>m. m\<lparr>md_longDescription := replaceNewlines text\<rparr>) g) ts'))
      else if elementName = ''min'' then
        (case metaData ls of None \<Rightarrow> Crash AssertFailed
         | Some p \<Rightarrow> (case readElementText ts of (text, ts') \<Rightarrow>
             (case lib_convertAndValidateRaw L (heap g ! p) text True of
                Some varMin \<Rightarrow> Continue ls (through p (\<lambda>m. m\<lparr>md_rawMin := Some varMin\<rparr>) g) ts'
              | None \<Rightarrow> Continue ls (addLog (InvalidMin (md_name (heap g ! p))) g) ts')))
      else if elementName = ''max'' then
        (case metaData ls of None \<Rightarrow> Crash AssertFailed
         | Some p \<Rightarrow> (case readElementText ts of (text, ts') \<Rightarrow>
             (case lib_convertAndValidateRaw L (heap g ! p) text True of
                Some varMax \<Rightarrow> Continue ls (through p (\<lambda>m. m\<lparr>md_rawMax := Some varMax\<rparr>) g) ts'
              | None \<Rightarrow> Continue ls (addLog (InvalidMax (md_name (heap g ! p))) g) ts')))
      else if elementName = ''unit'' then
        (case metaData ls of None \<Rightarrow> Crash AssertFailed
         | Some p \<Rightarrow> (case readElementText ts of (text, ts') \<Rightarrow>
             Continue ls (through p (\<lambda>m. m\<lparr>md_rawUnits := text\<rparr>) g) ts'))
      else if elementName = ''decimal'' then
        (case metaData ls of None \<Rightarrow> Crash AssertFailed
         | Some p \<Rightarrow> (case readElementText ts of (text, ts') \<Rightarrow>
             (case lib_toUInt L text of
                Some varDecimals \<Rightarrow>
                  Continue ls (through p (\<lambda>m. m\<lparr>md_decimalPlaces := Some (uintToInt varDecimals)\<rparr>) g) ts'
              | None \<Rightarrow> Continue ls (addLog (InvalidDecimals (md_name (heap g ! p))) g) ts')))
      else if elementName = ''reboot_required'' then
        (case metaData ls of None \<Rightarrow> Crash AssertFailed
         | Some p \<Rightarrow> (case readElementText ts of (text, ts') \<Rightarrow>
             if isTrueCaseInsensitive text
             then Continue ls (through p (\<lambda>m. m\<lparr>md_rebootRequired := True\<rparr>) g) ts'
             else Continue ls g ts'))
      else if elementName = ''values'' then Continue ls g ts
      else if elementName = ''value'' then
        (let enumValueStr = attributeValue attrs ''code''
         in case readElementText ts of (enumString, ts') \<Rightarrow>
           (case metaData ls of None \<Rightarrow> Crash NullPointer
            | Some p \<Rightarrow>
               (case lib_convertAndValidateRaw L (heap g ! p) enumValueStr False of
                  Some enumValue \<Rightarrow>
                    Continue ls (through p (\<lambda>m. m\<lparr>md_enumInfo := md_enumInfo m @ [(enumString, enumValue)]\<rparr>) g) ts'
                | None \<Rightarrow> Continue ls (addLog (InvalidEnumValue (md_name (heap g ! p))) g) ts')))
      else Continue ls (addLog (UnknownElement elementName) g) ts)"

text \<open>Lines 136-329: the dispatch on the name of a start element.\<close>

definition startElement ::
  "'v library \<Rightarrow> loop_state \<Rightarrow> 'v px4_state \<Rightarrow> string \<Rightarrow> (string \<times> string) list
     \<Rightarrow> xml_token list \<Rightarrow> 'v step_result" where
  "startElement L ls g elementName attrs ts =
     (if elementName = ''parameters'' then
        (if xmlState ls \<noteq> XmlStateNone then Return (addLog BadlyFormedXML g)
         else Continue (ls\<lparr>xmlState := XmlStateFoundParameters\<rparr>) g ts)
      else if elementName = ''version'' then
        (if xmlState ls \<noteq> XmlStateFoundParameters then Return (addLog BadlyFormedXML g)
         else case readElementText ts of (strVersion, ts') \<Rightarrow>
           (case lib_toInt L strVersion of
              None \<Rightarrow> Return (addLog BadlyFormedXML g)
            | Some intVersion \<Rightarrow>
                if intVersion \<le> 2 then Return (addLog (VersionTooOld intVersion) g)
                else Continue (ls\<lparr>xmlState := XmlStateFoundVersion\<rparr>) g ts'))
      else if elementName = ''group'' then
        (if xmlState ls \<noteq> XmlStateFoundVersion then Return (addLog VersionNotFound g)
         else if \<not> hasAttribute attrs ''name'' then Return (addLog BadlyFormedXML g)
         else Continue (ls\<lparr>xmlState := XmlStateFoundGroup,
                            factGroup := attributeValue attrs ''name''\<rparr>) g ts)
      else if elementName = ''parameter'' then startParameter L ls g attrs ts
      else metaDataElement L ls g elementName attrs ts)"

text \<open>
  Lines 330-352, an end element. The end of a parameter calls
  \<^verbatim>\<open>metaData->defaultValueAvailable()\<close> through the pointer, validates the default (which
  only logs) and resets the locals for the next parameter.
\<close>

definition endElement ::
  "'v library \<Rightarrow> loop_state \<Rightarrow> 'v px4_state \<Rightarrow> string \<Rightarrow> xml_token list \<Rightarrow> 'v step_result" where
  "endElement L ls g elementName ts =
     (if elementName = ''parameter'' then
        (case metaData ls of None \<Rightarrow> Crash NullPointer
         | Some p \<Rightarrow>
            let m = heap g ! p;
                g' = (case md_rawDefaultValue m of
                        Some d \<Rightarrow> if lib_validateTyped L m d then g
                                  else addLog (InvalidDefault (md_name m)) g
                      | None \<Rightarrow> g)
            in Continue (ls\<lparr>metaData := None, badMetaData := False,
                              xmlState := XmlStateFoundGroup\<rparr>) g' ts)
      else if elementName = ''group'' then Continue (ls\<lparr>xmlState := XmlStateFoundVersion\<rparr>) g ts
      else if elementName = ''parameters'' then
        Continue (ls\<lparr>xmlState := XmlStateFoundParameters\<rparr>) g ts
      else Continue ls g ts)"

text \<open>The body of the \<^verbatim>\<open>while\<close> loop on the current token \<open>t\<close>, with the tokens after it.\<close>

fun step ::
  "'v library \<Rightarrow> loop_state \<Rightarrow> 'v px4_state \<Rightarrow> xml_token \<Rightarrow> xml_token list \<Rightarrow> 'v step_result" where
  "step L ls g (StartElement n attrs) ts = startElement L ls g n attrs ts"
| "step L ls g (EndElement n) ts = endElement L ls g n ts"
| "step L ls g (Characters c) ts = Continue ls g ts"
| "step L ls g Comment ts = Continue ls g ts"
| "step L ls g OtherToken ts = Continue ls g ts"

lemma readElementText_length: "length (snd (readElementText ts)) \<le> length ts"
  by (induction ts rule: readElementText.induct) (auto split: prod.splits)

lemma readElementText_length': "readElementText ts = (text, ts') \<Longrightarrow> length ts' \<le> length ts"
  using readElementText_length [of ts] by simp

lemma step_length:
  "step L ls g t ts = Continue ls' g' ts' \<Longrightarrow> length ts' \<le> length ts"
  by (cases t)
     (auto simp: startElement_def startParameter_def metaDataElement_def endElement_def Let_def
           split: if_splits option.splits prod.splits dest: readElementText_length')

text \<open>
  The \<^verbatim>\<open>while (!xml.atEnd())\<close> loop of lines 135-354. It ends with the state when the
  tokens are used up or the function returns, and with the error when the program stops.
\<close>

function loop ::
  "'v library \<Rightarrow> loop_state \<Rightarrow> 'v px4_state \<Rightarrow> xml_token list \<Rightarrow> error + 'v px4_state" where
  "loop L ls g [] = Inr g"
| "loop L ls g (t # ts) =
     (case step L ls g t ts of
        Return g' \<Rightarrow> Inr g'
      | Crash e \<Rightarrow> Inl e
      | Continue ls' g' ts' \<Rightarrow> loop L ls' g' ts')"
  by pat_completeness auto
termination
  by (relation "measure (\<lambda>(L, ls, g, ts). length ts)") (auto dest: step_length)

subsection \<open>\<^verbatim>\<open>_loadParameterFactMetaData\<close> and \<^verbatim>\<open>addMetaDataToFact\<close>\<close>

text \<open>
  The file that lines 102-123 end up reading: whether it exists, whether it opens,
  what \<^verbatim>\<open>xml.hasError()\<close> says after the reader is built, and the tokens of its content.
\<close>

record xml_source =
  src_exists :: bool
  src_opens :: bool
  src_hasError :: bool
  src_tokens :: "xml_token list"

text \<open>
  \<^verbatim>\<open>_loadParameterFactMetaData\<close>. The flag is set before anything else is done; the three
  \<^verbatim>\<open>Q_ASSERT\<close>s of lines 100, 116 and 120 stop the program when they fail.
\<close>

definition loadParameterFactMetaData ::
  "'v library \<Rightarrow> xml_source \<Rightarrow> 'v px4_state \<Rightarrow> error + 'v px4_state" where
  "loadParameterFactMetaData L src g =
     (if parameterMetaDataLoaded g then Inr g
      else
        let g1 = g\<lparr>parameterMetaDataLoaded := True\<rparr>
        in if length (mapParameterName2FactMetaData g1) \<noteq> 0 then Inl AssertFailed
           else if \<not> src_exists src then Inl AssertFailed
           else if \<not> src_opens src then Inl AssertFailed
           else if src_hasError src then Inr (addLog BadlyFormedXML g1)
           else loop L initialLoop g1 (src_tokens src))"

text \<open>
  Modelled from the spec: the class \<^verbatim>\<open>Fact\<close> (Fact.h is not among the sources), the
  value facade of one parameter: its name, its type and the meta data pointer that
  \<^verbatim>\<open>setMetaData\<close> stores.
\<close>

record Fact =
  fact_name :: string
  fact_type :: ValueType_t
  fact_metaData :: "nat option"

text \<open>\<^verbatim>\<open>addMetaDataToFact(fact, vehicleType)\<close>, lines 358-370; the vehicle type is unused.\<close>

definition addMetaDataToFact ::
  "'v library \<Rightarrow> xml_source \<Rightarrow> Fact \<Rightarrow> 'v px4_state \<Rightarrow> error + (Fact \<times> 'v px4_state)" where
  "addMetaDataToFact L src fct g =
     (case loadParameterFactMetaData L src g of
        Inl e \<Rightarrow> Inl e
      | Inr g' \<Rightarrow>
          if mapContains g' (fact_name fct) then
            Inr (fct\<lparr>fact_metaData := map_of (mapParameterName2FactMetaData g') (fact_name fct)\<rparr>, g')
          else
            let p = length (heap g')
            in Inr (fct\<lparr>fact_metaData := Some p\<rparr>, allocate (newFactMetaData (fact_type fct)) g'))"

text \<open>Calling the load operation \<open>n\<close> times in a row.\<close>

fun loadTimes ::
  "'v library \<Rightarrow> xml_source \<Rightarrow> nat \<Rightarrow> 'v px4_state \<Rightarrow> error + 'v px4_state" where
  "loadTimes L src 0 g = Inr g"
| "loadTimes L src (Suc n) g =
     (case loadParameterFactMetaData L src g of Inl e \<Rightarrow> Inl e | Inr g' \<Rightarrow> loadTimes L src n g')"

subsection \<open>Token classes\<close>

text \<open>The four element names that drive \<^verbatim>\<open>xmlState\<close>.\<close>

definition structuralNames :: "string list" where
  "structuralNames = [''parameters'', ''version'', ''group'', ''parameter'']"

text \<open>
  A token of the content of a parameter element: a start or end tag of an element
  other than the four structural ones (\<^verbatim>\<open>short_desc\<close>, \<^verbatim>\<open>long_desc\<close>, \<^verbatim>\<open>min\<close>, \<^verbatim>\<open>max\<close>,
  \<^verbatim>\<open>unit\<close>, \<^verbatim>\<open>decimal\<close>, \<^verbatim>\<open>reboot_required\<close>, \<^verbatim>\<open>values\<close>, \<^verbatim>\<open>value\<close>, ...), or
  any token that is no tag.
\<close>

fun subElementToken :: "xml_token \<Rightarrow> bool" where
  "subElementToken (StartElement n attrs) = (n \<notin> set structuralNames)"
| "subElementToken (EndElement n) = (n \<notin> set structuralNames)"
| "subElementToken _ = True"

text \<open>A token that is neither the start nor the end of a \<^verbatim>\<open>parameter\<close> element.\<close>

fun notParameterTag :: "xml_token \<Rightarrow> bool" where
  "notParameterTag (StartElement n attrs) = (n \<noteq> ''parameter'')"
| "notParameterTag (EndElement n) = (n \<noteq> ''parameter'')"
| "notParameterTag _ = True"

fun versionStart :: "xml_token \<Rightarrow> bool" where
  "versionStart (StartElement n attrs) = (n = ''version'')"
| "versionStart _ = False"

text \<open>The state a pass of the loop body leaves, when the program has not stopped.\<close>

definition stateOf :: "'v step_result \<Rightarrow> 'v px4_state option" where
  "stateOf r = (case r of Return g \<Rightarrow> Some g | Crash e \<Rightarrow> None | Continue ls g ts \<Rightarrow> Some g)"

text \<open>Every pointer in the map points into the store.\<close>

definition validPointers :: "'v px4_state \<Rightarrow> bool" where
  "validPointers g = list_all (\<lambda>(n, p). p < length (heap g)) (mapParameterName2FactMetaData g)"

text \<open>
  What lines 210-217 do to the state when the name is already in the map: allocate
  the new object, log the duplicate, store the new pointer under the name.
\<close>

definition afterDuplicate :: "string \<Rightarrow> ValueType_t \<Rightarrow> 'v px4_state \<Rightarrow> 'v px4_state" where
  "afterDuplicate name t g =
     mapAssign name (length (heap g))
       (addLog (DuplicateParameter name) (allocate (newFactMetaData t) g))"

subsection \<open>Well-nested documents\<close>

text \<open>
  The token stream of a document whose tags nest, read with the open elements \<open>st\<close>
  (innermost first). The reader stops at the first tag that does not match, so the
  stream may end anywhere.
\<close>

fun wellNested :: "string list \<Rightarrow> xml_token list \<Rightarrow> bool" where
  "wellNested st [] = True"
| "wellNested st (StartElement n attrs # ts) = wellNested (n # st) ts"
| "wellNested st (EndElement n # ts) =
     (case st of [] \<Rightarrow> False | m # st' \<Rightarrow> m = n \<and> wellNested st' ts)"
| "wellNested st (Characters c # ts) = wellNested st ts"
| "wellNested st (Comment # ts) = wellNested st ts"
| "wellNested st (OtherToken # ts) = wellNested st ts"

text \<open>The open elements from the innermost structural one outwards.\<close>

definition openStructural :: "string list \<Rightarrow> string list" where
  "openStructural st = dropWhile (\<lambda>n. n \<notin> set structuralNames) st"

text \<open>The innermost open structural element is a \<^verbatim>\<open>parameter\<close>.\<close>

definition insideParameter :: "string list \<Rightarrow> bool" where
  "insideParameter st = (case openStructural st of [] \<Rightarrow> False | m # outer \<Rightarrow> m = ''parameter'')"

text \<open>
  How the locals of the loop fit the open elements: in state
  \<^verbatim>\<open>XmlStateFoundParameter\<close> the pointer is set; no \<^verbatim>\<open>parameter\<close> element is open around the
  innermost structural element; and inside a \<^verbatim>\<open>parameter\<close> element the state is
  \<^verbatim>\<open>XmlStateFoundParameter\<close>.
\<close>

definition loopOk :: "string list \<Rightarrow> loop_state \<Rightarrow> bool" where
  "loopOk st ls =
     ((xmlState ls \<noteq> XmlStateFoundParameter \<or> metaData ls \<noteq> None)
      \<and> ''parameter'' \<notin> set (tl (openStructural st))
      \<and> (\<not> insideParameter st \<or> xmlState ls = XmlStateFoundParameter))"

text \<open>
  A pass of the loop body that does not stop the program and, when the loop goes on,
  leaves locals that fit the open elements of the tokens left.
\<close>

definition stepOk :: "'v step_result \<Rightarrow> bool" where
  "stepOk r = (case r of Return g' \<Rightarrow> True | Crash e \<Rightarrow> False
               | Continue ls' g' ts' \<Rightarrow> (\<exists>st'. wellNested st' ts' \<and> loopOk st' ls'))"

subsection \<open>Example inputs\<close>

text \<open>
  Decimal numerals for the example library: a nonempty run of digits, which
  \<open>demoToInt\<close> also takes with a sign before it. They are one possible value of the
  parameters \<open>lib_toInt\<close> and \<open>lib_toUInt\<close>, used to evaluate the example files, whose
  numbers are single digits.
\<close>

definition isDigit :: "char \<Rightarrow> bool" where
  "isDigit c = (c \<in> set ''0123456789'')"

definition digitVal :: "char \<Rightarrow> nat" where
  "digitVal c = (of_char c - 48)"

fun digitsVal :: "nat \<Rightarrow> string \<Rightarrow> nat" where
  "digitsVal acc [] = acc"
| "digitsVal acc (c # cs) = digitsVal (10 * acc + digitVal c) cs"

definition demoToUInt :: "string \<Rightarrow> nat option" where
  "demoToUInt s =
     (if s \<noteq> [] \<and> list_all isDigit s then Some (digitsVal 0 s) else None)"

definition demoToInt :: "string \<Rightarrow> int option" where
  "demoToInt s =
     (let neg = (case s of c # cs \<Rightarrow> c = CHR ''-'' | [] \<Rightarrow> False);
          ds = (case s of c # cs \<Rightarrow> if c = CHR ''+'' \<or> c = CHR ''-'' then cs else s | [] \<Rightarrow> s)
      in if ds \<noteq> [] \<and> list_all isDigit ds
         then Some (if neg then - int (digitsVal 0 ds) else int (digitsVal 0 ds)) else None)"

text \<open>
  An instance of the library for the examples: the types are spelled as in the
  firmware's file, raw values are integers in decimal, every typed default is valid.
\<close>

definition demoLibrary :: "int library" where
  "demoLibrary =
     \<lparr> lib_stringToType = (\<lambda>s. if s = ''INT32'' then Some valueTypeInt32
                                else if s = ''FLOAT'' then Some valueTypeFloat else None),
       lib_convertAndValidateRaw = (\<lambda>m s convertOnly. demoToInt s),
       lib_validateTyped = (\<lambda>m v. True),
       lib_toInt = demoToInt,
       lib_toUInt = demoToUInt \<rparr>"

text \<open>
  An example file: the document start, \<^verbatim>\<open><parameters>\<close>, \<^verbatim>\<open><version>3</version>\<close>, the group
  \<^verbatim>\<open>Attitude\<close>, then the parameter \<^verbatim>\<open>A\<close> with a short description and a minimum, then the
  parameter \<^verbatim>\<open>B\<close> with a minimum.
\<close>

definition demoPrefix :: "xml_token list" where
  "demoPrefix =
     [OtherToken, StartElement ''parameters'' [],
      StartElement ''version'' [], Characters ''3'', EndElement ''version'',
      StartElement ''group'' [(''name'', ''Attitude'')]]"

definition demoAttrs :: "(string \<times> string) list" where
  "demoAttrs = [(''name'', ''A''), (''type'', ''INT32''), (''default'', ''5'')]"

definition demoBody :: "xml_token list" where
  "demoBody =
     [StartElement ''short_desc'' [], Characters ''Roll gain'', EndElement ''short_desc'',
      StartElement ''min'' [], Characters ''1'', EndElement ''min'']"

definition demoRest :: "xml_token list" where
  "demoRest =
     [EndElement ''parameter'',
      StartElement ''parameter'' [(''name'', ''B''), (''type'', ''INT32''), (''default'', ''7'')],
      StartElement ''min'' [], Characters ''2'', EndElement ''min'',
      EndElement ''parameter'',
      EndElement ''group'', EndElement ''parameters'']"

definition demoSource :: "xml_token list \<Rightarrow> xml_source" where
  "demoSource ts = \<lparr> src_exists = True, src_opens = True, src_hasError = False, src_tokens = ts \<rparr>"

text \<open>A file for which \<^verbatim>\<open>xml.hasError()\<close> holds.\<close>

definition failedSource :: xml_source where
  "failedSource = \<lparr> src_exists = True, src_opens = True, src_hasError = True, src_tokens = [] \<rparr>"

text \<open>The state after the example file is loaded, and the loop's locals inside its group.\<close>

definition demoLoaded :: "int px4_state" where
  "demoLoaded =
     \<lparr> parameterMetaDataLoaded = True,
       mapParameterName2FactMetaData = [(''A'', 0), (''B'', 1)],
       heap = [(newFactMetaData valueTypeInt32)
                 \<lparr>md_name := ''A'', md_group := ''Attitude'', md_rawDefaultValue := Some 5\<rparr>,
               (newFactMetaData valueTypeInt32)
                 \<lparr>md_name := ''B'', md_group := ''Attitude'', md_rawDefaultValue := Some 7,
                   md_rawMin := Some 2\<rparr>],
       logged = [] \<rparr>"

definition demoGroupLoop :: loop_state where
  "demoGroupLoop =
     \<lparr> factGroup = ''Attitude'', metaData = None, xmlState = XmlStateFoundGroup,
       badMetaData = False \<rparr>"

definition demoDuplicateAttrs :: "(string \<times> string) list" where
  "demoDuplicateAttrs = [(''name'', ''B''), (''type'', ''FLOAT''), (''default'', ''9'')]"

definition demoFact :: Fact where
  "demoFact = \<lparr> fact_name = ''B'', fact_type = valueTypeInt32, fact_metaData = None \<rparr>"

section \<open>ParameterLoader: the synchronization engine\<close>

text \<open>
  Modelled from the spec: \<^verbatim>\<open>ParameterLoader.cc\<close> is not among the sources. Its header
  (src/unnamed/part_000) declares the members and the operations; what the operations
  do is taken from sections 3, 4.1 and 5 of the spec. The commands handed to the
  transport and the timers themselves are not part of the state: a timer firing and an
  inbound notification are the events.
\<close>

subsection \<open>State\<close>

text \<open>
  \<^verbatim>\<open>_maxInitialLoadRetry\<close> (line 146). The spec has one retry budget for every pending
  entry, and the header one constant.
\<close>

definition maxInitialLoadRetry :: nat where
  "maxInitialLoadRetry = 10"

text \<open>
  Modelled from the spec: the members of lines 133-152 for one component id. The header
  keys every map by component id first; here the inner maps of one component are
  gathered in a record, and the engine maps component ids to such records. A
  component is present from the moment its count is known (\<^verbatim>\<open>_paramCountMap\<close>).
  \<open>'f\<close> is the type of the \<^verbatim>\<open>Fact\<close> objects.
\<close>

record 'f component =
  paramCount :: nat
  waitingReadParamIndex :: "(nat \<times> nat) list"
  waitingReadParamName :: "(string \<times> nat) list"
  waitingWriteParamName :: "(string \<times> nat) list"
  failedReadParamIndex :: "nat list"
  parameterId2Name :: "(nat \<times> string) list"
  parameterName2Variant :: "(string \<times> 'f) list"

text \<open>
  Modelled from the spec: the engine. \<open>emitted\<close> lists the \<^verbatim>\<open>parametersReady(missing)\<close>
  signals sent so far, each with its flag. \<^verbatim>\<open>_initialLoadComplete\<close> is "initial load of
  all parameters complete, whether successful or not", which is the spec's Ready state;
  \<^verbatim>\<open>_parametersReady\<close> is "full set of parameters correctly loaded".
\<close>

record 'f engine =
  components :: "(int \<times> 'f component) list"
  parametersReady :: bool
  initialLoadComplete :: bool
  defaultComponentId :: int
  emitted :: "bool list"

definition initialEngine :: "'f engine" where
  "initialEngine =
     \<lparr> components = [], parametersReady = False, initialLoadComplete = False,
       defaultComponentId = -1, emitted = [] \<rparr>"

text \<open>Applying \<open>f\<close> to the record of component \<open>cid\<close>.\<close>

definition onComponent ::
  "int \<Rightarrow> ('f component \<Rightarrow> 'f component) \<Rightarrow> (int \<times> 'f component) list
     \<Rightarrow> (int \<times> 'f component) list" where
  "onComponent cid f cs = map (\<lambda>(k, c). if k = cid then (k, f c) else (k, c)) cs"

subsection \<open>The completion check\<close>

text \<open>
  Modelled from the spec: a notification "resolves index->name mapping if new" and
  "stores/updates the value"; the header keeps the first in \<^verbatim>\<open>_mapParameterId2Name\<close> and
  the second in \<^verbatim>\<open>_mapParameterName2Variant\<close>. The value of an index is confirmed when
  the index has a name and the name a value.
\<close>

definition confirmed :: "'f component \<Rightarrow> nat \<Rightarrow> bool" where
  "confirmed c i =
     (case map_of (parameterId2Name c) i of
        None \<Rightarrow> False
      | Some n \<Rightarrow> map_of (parameterName2Variant c) n \<noteq> None)"

text \<open>
  Modelled from the spec: every parameter is Unrequested, Pending, Resolved or Failed
  (section 4.1). An index below the expected count is Resolved when its value is
  confirmed and it is neither pending (a refresh makes every index of its scope pending
  again) nor failed (a failed index is "permanently excluded from blocking readiness",
  so it stays failed when an answer comes late).
\<close>

definition resolvedIndices :: "'f component \<Rightarrow> nat list" where
  "resolvedIndices c =
     filter (\<lambda>i. confirmed c i \<and> i \<notin> fst ` set (waitingReadParamIndex c)
                 \<and> i \<notin> set (failedReadParamIndex c))
       [0..<paramCount c]"

text \<open>Modelled from the spec: "(resolved + failed) count equals the expected count".\<close>

definition componentComplete :: "'f component \<Rightarrow> bool" where
  "componentComplete c =
     (length (resolvedIndices c) + length (failedReadParamIndex c) = paramCount c)"

text \<open>Modelled from the spec: "true iff any failed index exists anywhere".\<close>

definition anyFailed :: "'f engine \<Rightarrow> bool" where
  "anyFailed e = list_ex (\<lambda>(cid, c). failedReadParamIndex c \<noteq> []) (components e)"

text \<open>
  Modelled from the spec: \<^verbatim>\<open>_checkInitialLoadComplete\<close>. "Readiness is declared once, for
  every targeted component, (resolved + failed) count equals the expected count; the
  missing-parameters flag is true iff any failed index exists anywhere."
\<close>

definition checkInitialLoadComplete :: "'f engine \<Rightarrow> 'f engine" where
  "checkInitialLoadComplete e =
     (if initialLoadComplete e then e
      else if list_all (\<lambda>(cid, c). componentComplete c) (components e) then
        e\<lparr>initialLoadComplete := True, parametersReady := \<not> anyFailed e,
          emitted := emitted e @ [anyFailed e]\<rparr>
      else e)"

subsection \<open>Inbound notifications\<close>

text \<open>
  Modelled from the spec: the first notification of a component announces its count;
  from then on the confirmed, the pending and the failed indices together are the
  indices below the count, so every index starts out pending with retry count 0.
\<close>

definition newComponent :: "nat \<Rightarrow> 'f component" where
  "newComponent count =
     \<lparr> paramCount = count, waitingReadParamIndex = map (\<lambda>i. (i, 0)) [0..<count],
       waitingReadParamName = [], waitingWriteParamName = [], failedReadParamIndex = [],
       parameterId2Name = [], parameterName2Variant = [] \<rparr>"

text \<open>
  Modelled from the spec: "each inbound parameter notification resolves index->name
  mapping if new, stores/updates the value, removes the name/index from whichever
  pending map it was in". An index without a pending entry is accepted the same way.
\<close>

definition componentUpdate :: "string \<Rightarrow> nat \<Rightarrow> 'f \<Rightarrow> 'f component \<Rightarrow> 'f component" where
  "componentUpdate name idx v c =
     c\<lparr> parameterId2Name :=
          (if map_of (parameterId2Name c) idx = None then parameterId2Name c @ [(idx, name)]
           else parameterId2Name c),
        parameterName2Variant := AList.update name v (parameterName2Variant c),
        waitingReadParamIndex := AList.delete idx (waitingReadParamIndex c),
        waitingReadParamName := AList.delete name (waitingReadParamName c),
        waitingWriteParamName := AList.delete name (waitingWriteParamName c) \<rparr>"

text \<open>
  Modelled from the spec: \<^verbatim>\<open>_parameterUpdate\<close> for component \<open>cid\<close>, parameter \<open>name\<close>, the
  announced \<open>count\<close>, index \<open>idx\<close> and value \<open>v\<close>; the completion check runs after it.
\<close>

definition parameterUpdate ::
  "int \<Rightarrow> string \<Rightarrow> nat \<Rightarrow> nat \<Rightarrow> 'f \<Rightarrow> 'f engine \<Rightarrow> 'f engine" where
  "parameterUpdate cid name count idx v e =
     (let cs = (if map_of (components e) cid = None
                then components e @ [(cid, newComponent count)] else components e)
      in checkInitialLoadComplete
           (e\<lparr>components := onComponent cid (componentUpdate name idx v) cs\<rparr>))"

subsection \<open>The waiting-parameter timeout\<close>

text \<open>
  Modelled from the spec: "for every still-pending read or write, increments its retry
  count and re-issues the request; entries whose retry count exceeds the maximum retry
  budget are moved out of the pending map".
\<close>

definition bumped :: "('k \<times> nat) list \<Rightarrow> ('k \<times> nat) list" where
  "bumped m = map (\<lambda>(k, r). (k, Suc r)) m"

definition stillWaiting :: "('k \<times> nat) list \<Rightarrow> ('k \<times> nat) list" where
  "stillWaiting m = filter (\<lambda>(k, r). r \<le> maxInitialLoadRetry) (bumped m)"

definition givenUp :: "('k \<times> nat) list \<Rightarrow> 'k list" where
  "givenUp m = map fst (filter (\<lambda>(k, r). maxInitialLoadRetry < r) (bumped m))"

text \<open>The indices that the index-to-name mapping gives to the names \<open>ns\<close>.\<close>

definition indicesOfNames :: "(nat \<times> string) list \<Rightarrow> string list \<Rightarrow> nat list" where
  "indicesOfNames id2name ns = map fst (filter (\<lambda>(i, n). n \<in> set ns) id2name)"

text \<open>Adding indices to the failed set; an index is listed once.\<close>

fun addFailed :: "nat list \<Rightarrow> nat list \<Rightarrow> nat list" where
  "addFailed [] failed = failed"
| "addFailed (i # is) failed =
     addFailed is (if i \<in> set failed then failed else failed @ [i])"

text \<open>
  Modelled from the spec: "reads become Failed, writes are abandoned". A read by index
  that is given up puts its index into the failed set; a read by name puts there the
  index its name resolves to, when it has one; a write is dropped.
\<close>

definition componentTimeout :: "'f component \<Rightarrow> 'f component" where
  "componentTimeout c =
     c\<lparr> waitingReadParamIndex := stillWaiting (waitingReadParamIndex c),
        waitingReadParamName := stillWaiting (waitingReadParamName c),
        waitingWriteParamName := stillWaiting (waitingWriteParamName c),
        failedReadParamIndex :=
          addFailed (givenUp (waitingReadParamIndex c)
                       @ indicesOfNames (parameterId2Name c) (givenUp (waitingReadParamName c)))
                    (failedReadParamIndex c) \<rparr>"

text \<open>Modelled from the spec: \<^verbatim>\<open>_waitingParamTimeout\<close>; the completion check runs after it.\<close>

definition waitingParamTimeout :: "'f engine \<Rightarrow> 'f engine" where
  "waitingParamTimeout e =
     checkInitialLoadComplete
       (e\<lparr>components := map (\<lambda>(cid, c). (cid, componentTimeout c)) (components e)\<rparr>)"

subsection \<open>Requests\<close>

text \<open>
  Modelled from the spec: \<^verbatim>\<open>refreshAllParameters\<close> "clears pending/failed state for the
  targeted scope and re-enters BulkLoading"; the old pending entries are discarded
  "before new requests are issued", and every index of a targeted component whose count
  is known is requested again. \<open>None\<close> is \<^verbatim>\<open>MAV_COMP_ID_ALL\<close>. A refresh "re-arms the
  readiness signal".
\<close>

definition componentRefresh :: "'f component \<Rightarrow> 'f component" where
  "componentRefresh c =
     c\<lparr> waitingReadParamIndex := map (\<lambda>i. (i, 0)) [0..<paramCount c],
        waitingReadParamName := [], waitingWriteParamName := [],
        failedReadParamIndex := [] \<rparr>"

definition refreshAllParameters :: "int option \<Rightarrow> 'f engine \<Rightarrow> 'f engine" where
  "refreshAllParameters target e =
     e\<lparr> components :=
          map (\<lambda>(cid, c). if target = None \<or> target = Some cid then (cid, componentRefresh c)
                          else (cid, c)) (components e),
        initialLoadComplete := False, parametersReady := False \<rparr>"

text \<open>
  Modelled from the spec: \<^verbatim>\<open>refreshParameter\<close> "issues targeted by-name reads", and
  \<^verbatim>\<open>_writeParameterRaw\<close> "marks the name Pending in the write map"; a newer entry
  "supersedes and restarts the retry count". The value has been validated before.
\<close>

definition refreshParameter :: "int \<Rightarrow> string \<Rightarrow> 'f engine \<Rightarrow> 'f engine" where
  "refreshParameter cid name e =
     e\<lparr>components :=
         onComponent cid (\<lambda>c. c\<lparr>waitingReadParamName := AList.update name 0 (waitingReadParamName c)\<rparr>)
           (components e)\<rparr>"

definition writeParameterRaw :: "int \<Rightarrow> string \<Rightarrow> 'f engine \<Rightarrow> 'f engine" where
  "writeParameterRaw cid name e =
     e\<lparr>components :=
         onComponent cid (\<lambda>c. c\<lparr>waitingWriteParamName := AList.update name 0 (waitingWriteParamName c)\<rparr>)
           (components e)\<rparr>"

subsection \<open>Runs\<close>

datatype 'f event =
    ParameterUpdate int string nat nat 'f
  | WaitingParamTimeout
  | RefreshAllParameters "int option"
  | RefreshParameter int string
  | WriteParameterRaw int string

fun apply_event :: "'f event \<Rightarrow> 'f engine \<Rightarrow> 'f engine" where
  "apply_event (ParameterUpdate cid name count idx v) e = parameterUpdate cid name count idx v e"
| "apply_event WaitingParamTimeout e = waitingParamTimeout e"
| "apply_event (RefreshAllParameters target) e = refreshAllParameters target e"
| "apply_event (RefreshParameter cid name) e = refreshParameter cid name e"
| "apply_event (WriteParameterRaw cid name) e = writeParameterRaw cid name e"

fun run :: "'f event list \<Rightarrow> 'f engine \<Rightarrow> 'f engine" where
  "run [] e = e"
| "run (ev # evs) e = run evs (apply_event ev e)"

subsection \<open>Invariants of the bookkeeping\<close>

text \<open>Every retry count of a pending map is within the budget.\<close>

definition retriesWithin :: "('k \<times> nat) list \<Rightarrow> bool" where
  "retriesWithin m = list_all (\<lambda>(k, r). r \<le> maxInitialLoadRetry) m"

definition componentBounded :: "'f component \<Rightarrow> bool" where
  "componentBounded c =
     (retriesWithin (waitingReadParamIndex c) \<and> retriesWithin (waitingReadParamName c)
      \<and> retriesWithin (waitingWriteParamName c))"

definition engineBounded :: "'f engine \<Rightarrow> bool" where
  "engineBounded e = list_all (\<lambda>(cid, c). componentBounded c) (components e)"

text \<open>
  What holds of the bookkeeping of a component in every state a run reaches: the
  pending indices are listed once and lie below the count, and so do the failed
  indices and the indices that have a name.
\<close>

definition componentInv :: "'f component \<Rightarrow> bool" where
  "componentInv c =
     (distinct (map fst (waitingReadParamIndex c))
      \<and> list_all (\<lambda>(i, r). i < paramCount c) (waitingReadParamIndex c)
      \<and> distinct (failedReadParamIndex c)
      \<and> list_all (\<lambda>i. i < paramCount c) (failedReadParamIndex c)
      \<and> list_all (\<lambda>(i, n). i < paramCount c) (parameterId2Name c))"

definition engineInv :: "'f engine \<Rightarrow> bool" where
  "engineInv e = list_all (\<lambda>(cid, c). componentInv c) (components e)"

text \<open>
  The invariant of section 3 of the spec, "the union of confirmed parameters, pending
  reads and failed indices for a component always equals its expected count": every
  index below the count is pending, failed or confirmed. With it, every index that has
  a name has a value.
\<close>

definition componentCovered :: "'f component \<Rightarrow> bool" where
  "componentCovered c =
     (list_all (\<lambda>i. i \<in> fst ` set (waitingReadParamIndex c) \<or> i \<in> set (failedReadParamIndex c)
                     \<or> confirmed c i) [0..<paramCount c]
      \<and> list_all (\<lambda>(i, n). map_of (parameterName2Variant c) n \<noteq> None) (parameterId2Name c))"

definition engineCovered :: "'f engine \<Rightarrow> bool" where
  "engineCovered e = list_all (\<lambda>(cid, c). componentCovered c) (components e)"

text \<open>
  A notification as the protocol sends it: its index lies below the count of its
  component (the announced count, for a component not seen before).
\<close>

fun wfEvent :: "'f engine \<Rightarrow> 'f event \<Rightarrow> bool" where
  "wfEvent e (ParameterUpdate cid name count idx v) =
     (list_all (\<lambda>(k, c). k \<noteq> cid \<or> idx < paramCount c) (components e)
      \<and> (map_of (components e) cid \<noteq> None \<or> idx < count))"
| "wfEvent e _ = True"

fun wfRun :: "'f engine \<Rightarrow> 'f event list \<Rightarrow> bool" where
  "wfRun e [] = True"
| "wfRun e (ev # evs) = (wfEvent e ev \<and> wfRun (apply_event ev e) evs)"

text \<open>Every retry count of a pending map is at least \<open>n\<close>.\<close>

definition agedAtLeast :: "nat \<Rightarrow> ('k \<times> nat) list \<Rightarrow> bool" where
  "agedAtLeast n m = list_all (\<lambda>(k, r). n \<le> r) m"

definition componentAged :: "nat \<Rightarrow> 'f component \<Rightarrow> bool" where
  "componentAged n c =
     (agedAtLeast n (waitingReadParamIndex c) \<and> agedAtLeast n (waitingReadParamName c)
      \<and> agedAtLeast n (waitingWriteParamName c))"

definition engineAged :: "nat \<Rightarrow> 'f engine \<Rightarrow> bool" where
  "engineAged n e = list_all (\<lambda>(cid, c). componentAged n c) (components e)"

text \<open>The component ids with their counts.\<close>

definition known :: "'f engine \<Rightarrow> (int \<times> nat) list" where
  "known e = map (\<lambda>(cid, c). (cid, paramCount c)) (components e)"

text \<open>
  An event of a stretch in which no component appears and nothing new is requested:
  a timer firing, or a notification of a known component with an index below its count.
\<close>

fun quietFor :: "(int \<times> nat) list \<Rightarrow> 'f event \<Rightarrow> bool" where
  "quietFor ks WaitingParamTimeout = True"
| "quietFor ks (ParameterUpdate cid name count idx v) =
     (map_of ks cid \<noteq> None \<and> list_all (\<lambda>(k, n). k \<noteq> cid \<or> idx < n) ks)"
| "quietFor ks (RefreshAllParameters target) = False"
| "quietFor ks (RefreshParameter cid name) = False"
| "quietFor ks (WriteParameterRaw cid name) = False"

text \<open>The number of timer firings among the events.\<close>

definition ticks :: "'f event list \<Rightarrow> nat" where
  "ticks evs = length (filter (\<lambda>ev. ev = WaitingParamTimeout) evs)"



text \<open>
  The state in which a run first finds the load complete, where the epoch ends ("one
  full load attempt, bounded by a refresh call and the subsequent readiness signal");
  \<open>None\<close> while the load is not complete.
\<close>

fun firstReady :: "'f event list \<Rightarrow> 'f engine \<Rightarrow> 'f engine option" where
  "firstReady [] e = None"
| "firstReady (ev # evs) e =
     (if initialLoadComplete (apply_event ev e) then Some (apply_event ev e)
      else firstReady evs (apply_event ev e))"

text \<open>Nothing is pending for the component.\<close>

definition componentIdle :: "'f component \<Rightarrow> bool" where
  "componentIdle c =
     (waitingReadParamIndex c = [] \<and> waitingReadParamName c = [] \<and> waitingWriteParamName c = [])"

text \<open>
  Within a load epoch in which nothing is read by name or written, as after the
  connection or a refresh of all components: no read by name and no write is pending,
  and no failed index is pending again.
\<close>

definition componentEpoch :: "'f component \<Rightarrow> bool" where
  "componentEpoch c =
     (waitingReadParamName c = [] \<and> waitingWriteParamName c = []
      \<and> list_all (\<lambda>i. i \<notin> fst ` set (waitingReadParamIndex c)) (failedReadParamIndex c))"


subsection \<open>Example runs\<close>

text \<open>
  The scenario of section 8 of the spec: component 1 reports count 3, the indices 0
  and 2 answer, index 1 never does, and the timer fires eleven times.
\<close>

definition scenarioStart :: "int event list" where
  "scenarioStart = [ParameterUpdate 1 ''P0'' 3 0 10, ParameterUpdate 1 ''P2'' 3 2 30]"

definition scenarioTicks :: "int event list" where
  "scenarioTicks = replicate 11 WaitingParamTimeout"

text \<open>The state after the two answers, and the state after the eleven timer firings.\<close>

definition scenarioLoading :: "int engine" where
  "scenarioLoading =
     \<lparr> components =
         [(1, \<lparr> paramCount = 3, waitingReadParamIndex = [(1, 0)], waitingReadParamName = [],
                waitingWriteParamName = [], failedReadParamIndex = [],
                parameterId2Name = [(0, ''P0''), (2, ''P2'')],
                parameterName2Variant = [(''P0'', 10), (''P2'', 30)] \<rparr>)],
       parametersReady = False, initialLoadComplete = False, defaultComponentId = -1,
       emitted = [] \<rparr>"

definition scenarioReady :: "int engine" where
  "scenarioReady =
     \<lparr> components =
         [(1, \<lparr> paramCount = 3, waitingReadParamIndex = [], waitingReadParamName = [],
                waitingWriteParamName = [], failedReadParamIndex = [1],
                parameterId2Name = [(0, ''P0''), (2, ''P2'')],
                parameterName2Variant = [(''P0'', 10), (''P2'', 30)] \<rparr>)],
       parametersReady = False, initialLoadComplete = True, defaultComponentId = -1,
       emitted = [True] \<rparr>"




text \<open>
  A component that announces itself late: component 1 has one parameter and answers;
  only then component 2 announces two parameters, of which index 1 never answers.
\<close>

definition lateStart :: "int event list" where
  "lateStart = [ParameterUpdate 1 ''P0'' 1 0 10, ParameterUpdate 2 ''Q0'' 2 0 20]"

definition lateFirst :: "int engine" where
  "lateFirst =
     \<lparr> components =
         [(1, \<lparr> paramCount = 1, waitingReadParamIndex = [], waitingReadParamName = [],
                waitingWriteParamName = [], failedReadParamIndex = [],
                parameterId2Name = [(0, ''P0'')], parameterName2Variant = [(''P0'', 10)] \<rparr>)],
       parametersReady = True, initialLoadComplete = True, defaultComponentId = -1,
       emitted = [False] \<rparr>"

definition lateEnd :: "int engine" where
  "lateEnd =
     \<lparr> components =
         [(1, \<lparr> paramCount = 1, waitingReadParamIndex = [], waitingReadParamName = [],
                waitingWriteParamName = [], failedReadParamIndex = [],
                parameterId2Name = [(0, ''P0'')], parameterName2Variant = [(''P0'', 10)] \<rparr>),
          (2, \<lparr> paramCount = 2, waitingReadParamIndex = [], waitingReadParamName = [],
                waitingWriteParamName = [], failedReadParamIndex = [1],
                parameterId2Name = [(0, ''Q0'')], parameterName2Variant = [(''Q0'', 20)] \<rparr>)],
       parametersReady = True, initialLoadComplete = True, defaultComponentId = -1,
       emitted = [False] \<rparr>"

text \<open>
  A component with a read by index, a read by name and a write that have used up
  their budget, and a write that has not.
\<close>

definition budgetComponent :: "int component" where
  "budgetComponent =
     \<lparr> paramCount = 3, waitingReadParamIndex = [(1, 10)], waitingReadParamName = [(''P0'', 10)],
       waitingWriteParamName = [(''P2'', 10), (''P0'', 3)], failedReadParamIndex = [],
       parameterId2Name = [(0, ''P0''), (2, ''P2'')],
       parameterName2Variant = [(''P0'', 10), (''P2'', 30)] \<rparr>"

section \<open>Properties of the meta data store\<close>

subsection \<open>How the state operations act on each field\<close>

lemma stateOf_simps [simp]:
  "stateOf (Return g) = Some g"
  "stateOf (Crash e) = None"
  "stateOf (Continue ls g ts) = Some g"
  by (simp_all add: stateOf_def)

lemma loaded_simps [simp]:
  "parameterMetaDataLoaded (addLog e g) = parameterMetaDataLoaded g"
  "parameterMetaDataLoaded (through p f g) = parameterMetaDataLoaded g"
  "parameterMetaDataLoaded (allocate m g) = parameterMetaDataLoaded g"
  "parameterMetaDataLoaded (mapAssign n p g) = parameterMetaDataLoaded g"
  by (simp_all add: addLog_def through_def allocate_def mapAssign_def)

lemma heap_simps [simp]:
  "heap (addLog e g) = heap g"
  "heap (allocate m g) = heap g @ [m]"
  "heap (mapAssign n p g) = heap g"
  "heap (through p f g) = (heap g)[p := f (heap g ! p)]"
  by (simp_all add: addLog_def through_def allocate_def mapAssign_def)

lemma map_simps [simp]:
  "mapParameterName2FactMetaData (addLog e g) = mapParameterName2FactMetaData g"
  "mapParameterName2FactMetaData (allocate m g) = mapParameterName2FactMetaData g"
  "mapParameterName2FactMetaData (mapAssign n p g) =
     AList.update n p (mapParameterName2FactMetaData g)"
  "mapParameterName2FactMetaData (through p f g) = mapParameterName2FactMetaData g"
  by (simp_all add: addLog_def through_def allocate_def mapAssign_def)

lemma logged_simps [simp]:
  "logged (addLog e g) = logged g @ [e]"
  "logged (allocate m g) = logged g"
  "logged (mapAssign n p g) = logged g"
  "logged (through p f g) = logged g"
  by (simp_all add: addLog_def through_def allocate_def mapAssign_def)

lemma mapContains_simps [simp]:
  "mapContains (addLog e g) n = mapContains g n"
  "mapContains (allocate m g) n = mapContains g n"
  "mapContains (through p f g) n = mapContains g n"
  by (simp_all add: mapContains_def)

subsection \<open>The loop keeps the loaded flag\<close>

lemma startParameter_loaded:
  "stateOf (startParameter L ls g attrs ts) = Some g'
    \<Longrightarrow> parameterMetaDataLoaded g' = parameterMetaDataLoaded g"
  by (auto simp: startParameter_def Let_def split: if_splits option.splits)

lemma metaDataElement_loaded:
  "stateOf (metaDataElement L ls g n attrs ts) = Some g'
    \<Longrightarrow> parameterMetaDataLoaded g' = parameterMetaDataLoaded g"
  unfolding metaDataElement_def Let_def
  by (auto split: if_splits option.splits prod.splits)

lemma startElement_loaded:
  "stateOf (startElement L ls g n attrs ts) = Some g'
    \<Longrightarrow> parameterMetaDataLoaded g' = parameterMetaDataLoaded g"
  unfolding startElement_def
  by (auto split: if_splits option.splits prod.splits
           dest: startParameter_loaded metaDataElement_loaded)

lemma endElement_loaded:
  "stateOf (endElement L ls g n ts) = Some g'
    \<Longrightarrow> parameterMetaDataLoaded g' = parameterMetaDataLoaded g"
  unfolding endElement_def Let_def
  by (auto split: if_splits option.splits prod.splits)

lemma step_loaded:
  "stateOf (step L ls g t ts) = Some g'
    \<Longrightarrow> parameterMetaDataLoaded g' = parameterMetaDataLoaded g"
  by (cases t) (auto dest: startElement_loaded endElement_loaded)

lemma loop_loaded:
  "loop L ls g ts = Inr g' \<Longrightarrow> parameterMetaDataLoaded g' = parameterMetaDataLoaded g"
proof (induction L ls g ts rule: loop.induct)
  case (1 L ls g)
  then show ?case by simp
next
  case (2 L ls g t ts)
  show ?case
  proof (cases "step L ls g t ts")
    case (Return g1)
    with 2 show ?thesis using step_loaded [of L ls g t ts g'] by simp
  next
    case (Crash e)
    with 2 show ?thesis by simp
  next
    case (Continue ls1 g1 ts1)
    with 2 have "parameterMetaDataLoaded g' = parameterMetaDataLoaded g1" by simp
    moreover have "parameterMetaDataLoaded g1 = parameterMetaDataLoaded g"
      using step_loaded [of L ls g t ts g1] Continue by simp
    ultimately show ?thesis by simp
  qed
qed

lemma load_sets_flag:
  "loadParameterFactMetaData L src g = Inr g' \<Longrightarrow> parameterMetaDataLoaded g'"
  by (auto simp: loadParameterFactMetaData_def Let_def split: if_splits dest: loop_loaded)

lemma load_when_loaded:
  "parameterMetaDataLoaded g \<Longrightarrow> loadParameterFactMetaData L src g = Inr g"
  by (simp add: loadParameterFactMetaData_def)

lemma loadTimes_loaded:
  "parameterMetaDataLoaded g \<Longrightarrow> loadTimes L src n g = Inr g"
  by (induction n) (simp_all add: load_when_loaded)

lemma failed_load:
  "loadParameterFactMetaData L failedSource initialState =
     Inr \<lparr> parameterMetaDataLoaded = True, mapParameterName2FactMetaData = [], heap = [],
           logged = [BadlyFormedXML] \<rparr>"
  by (simp add: loadParameterFactMetaData_def failedSource_def initialState_def addLog_def)

subsection \<open>The loop keeps the pointers of the map valid\<close>

lemma list_all_update:
  "list_all P al \<Longrightarrow> P (k, v) \<Longrightarrow> list_all P (AList.update k v al)"
  by (induction al) auto

lemma validPointers_simps [simp]:
  "validPointers (addLog e g) = validPointers g"
  "validPointers (through p f g) = validPointers g"
  "validPointers (g\<lparr>parameterMetaDataLoaded := b\<rparr>) = validPointers g"
  by (simp_all add: validPointers_def)

lemma validPointers_allocate: "validPointers g \<Longrightarrow> validPointers (allocate m g)"
  by (auto simp: validPointers_def list_all_iff)

lemma validPointers_mapAssign:
  "validPointers g \<Longrightarrow> p < length (heap g) \<Longrightarrow> validPointers (mapAssign n p g)"
  by (simp add: validPointers_def list_all_update)

lemma startParameter_valid:
  "stateOf (startParameter L ls g attrs ts) = Some g' \<Longrightarrow> validPointers g \<Longrightarrow> validPointers g'"
  by (auto simp: startParameter_def Let_def validPointers_allocate validPointers_mapAssign
           split: if_splits option.splits)

lemma metaDataElement_valid:
  "stateOf (metaDataElement L ls g n attrs ts) = Some g' \<Longrightarrow> validPointers g \<Longrightarrow> validPointers g'"
  unfolding metaDataElement_def Let_def
  by (auto split: if_splits option.splits prod.splits)

lemma startElement_valid:
  "stateOf (startElement L ls g n attrs ts) = Some g' \<Longrightarrow> validPointers g \<Longrightarrow> validPointers g'"
  unfolding startElement_def
  by (auto split: if_splits option.splits prod.splits
           dest: startParameter_valid metaDataElement_valid)

lemma endElement_valid:
  "stateOf (endElement L ls g n ts) = Some g' \<Longrightarrow> validPointers g \<Longrightarrow> validPointers g'"
  unfolding endElement_def Let_def
  by (auto split: if_splits option.splits prod.splits)

lemma step_valid:
  "stateOf (step L ls g t ts) = Some g' \<Longrightarrow> validPointers g \<Longrightarrow> validPointers g'"
  by (cases t) (auto dest: startElement_valid endElement_valid)

lemma loop_valid:
  "loop L ls g ts = Inr g' \<Longrightarrow> validPointers g \<Longrightarrow> validPointers g'"
proof (induction L ls g ts rule: loop.induct)
  case (1 L ls g)
  then show ?case by simp
next
  case (2 L ls g t ts)
  show ?case
  proof (cases "step L ls g t ts")
    case (Return g1)
    with 2 show ?thesis using step_valid [of L ls g t ts g'] by simp
  next
    case (Crash e)
    with 2 show ?thesis by simp
  next
    case (Continue ls1 g1 ts1)
    moreover have "validPointers g1"
      using step_valid [of L ls g t ts g1] Continue 2(3) by simp
    ultimately show ?thesis using 2 by simp
  qed
qed

lemma load_valid:
  "loadParameterFactMetaData L src g = Inr g' \<Longrightarrow> validPointers g \<Longrightarrow> validPointers g'"
  by (auto simp: loadParameterFactMetaData_def Let_def split: if_splits dest: loop_valid)

lemma validPointers_initialState: "validPointers initialState"
  by (simp add: validPointers_def initialState_def)

subsection \<open>The loader does not stop on a well-nested document\<close>

lemma openStructural_push_plain [simp]:
  "n \<notin> set structuralNames \<Longrightarrow> openStructural (n # st) = openStructural st"
  by (simp add: openStructural_def)

lemma openStructural_push_structural [simp]:
  "n \<in> set structuralNames \<Longrightarrow> openStructural (n # st) = n # st"
  by (simp add: openStructural_def)

lemma parameter_structural [simp]: "''parameter'' \<in> set structuralNames"
  by (simp add: structuralNames_def)

lemma not_inside_no_parameter:
  assumes "\<not> insideParameter st" "''parameter'' \<notin> set (tl (openStructural st))"
  shows "''parameter'' \<notin> set st"
proof -
  have "set st = set (takeWhile (\<lambda>n. n \<notin> set structuralNames) st) \<union> set (openStructural st)"
    unfolding openStructural_def by (metis set_append takeWhile_dropWhile_id)
  moreover have "''parameter'' \<notin> set (takeWhile (\<lambda>n. n \<notin> set structuralNames) st)"
    by (auto dest: set_takeWhileD)
  moreover have "''parameter'' \<notin> set (openStructural st)"
    using assms by (cases "openStructural st") (auto simp: insideParameter_def)
  ultimately show ?thesis by simp
qed

lemma tl_openStructural_subset: "set (tl (openStructural st)) \<subseteq> set st"
  unfolding openStructural_def
  by (metis list.set_sel(2) set_dropWhileD subsetI tl_Nil)

lemma readElementText_nested:
  assumes "wellNested (n # st) ts" "readElementText ts = (tx, ts')"
  shows "wellNested st ts'"
  using assms
proof (induction ts arbitrary: tx rule: readElementText.induct)
  case (2 c ts)
  then show ?case by (auto split: prod.splits)
qed auto

lemma stepOk_simps [simp]:
  "stepOk (Return g)" "\<not> stepOk (Crash e)"
  "stepOk (Continue ls g ts) = (\<exists>st'. wellNested st' ts \<and> loopOk st' ls)"
  by (simp_all add: stepOk_def)

lemma inside_has_parameter: "insideParameter st \<Longrightarrow> ''parameter'' \<in> set st"
proof -
  assume "insideParameter st"
  then obtain outer where "openStructural st = ''parameter'' # outer"
    by (cases "openStructural st") (auto simp: insideParameter_def)
  then have "''parameter'' \<in> set (dropWhile (\<lambda>n. n \<notin> set structuralNames) st)"
    by (simp add: openStructural_def)
  then show ?thesis by (rule set_dropWhileD)
qed

lemma loopOk_plain_push:
  assumes "n \<notin> set structuralNames"
  shows "loopOk (n # st) ls = loopOk st ls"
  unfolding loopOk_def insideParameter_def openStructural_push_plain [OF assms] ..

lemma loopOk_no_parameter:
  assumes "loopOk st ls" "xmlState ls \<noteq> XmlStateFoundParameter"
  shows "''parameter'' \<notin> set st"
proof (rule not_inside_no_parameter)
  show "\<not> insideParameter st" using assms by (auto simp: loopOk_def)
  show "''parameter'' \<notin> set (tl (openStructural st))" using assms(1) by (simp add: loopOk_def)
qed

lemma loopOk_structural_pop:
  assumes "loopOk (n # st) ls" "n \<in> set structuralNames"
  shows "''parameter'' \<notin> set st" "\<not> insideParameter st"
    "''parameter'' \<notin> set (tl (openStructural st))"
proof -
  show p: "''parameter'' \<notin> set st" using assms by (simp add: loopOk_def)
  then show "\<not> insideParameter st" by (auto dest: inside_has_parameter)
  show "''parameter'' \<notin> set (tl (openStructural st))"
    using p tl_openStructural_subset [of st] by auto
qed

lemma endElement_ok:
  assumes "wellNested st ts" "loopOk (n # st) ls"
  shows "stepOk (endElement L ls g n ts)"
proof (cases "n \<in> set structuralNames")
  case False
  then have "endElement L ls g n ts = Continue ls g ts"
    by (auto simp: endElement_def structuralNames_def)
  moreover have "loopOk st ls" using assms(2) False by (simp add: loopOk_plain_push)
  ultimately show ?thesis using assms(1) by auto
next
  case True
  note pop = loopOk_structural_pop [OF assms(2) True]
  show ?thesis
  proof (cases "n = ''parameter''")
    case True
    then have "insideParameter (n # st)" by (simp add: insideParameter_def)
    then have "metaData ls \<noteq> None" using assms(2) by (auto simp: loopOk_def)
    then obtain p where p: "metaData ls = Some p" by auto
    have "loopOk st (ls\<lparr>metaData := None, badMetaData := False, xmlState := XmlStateFoundGroup\<rparr>)"
      using pop by (simp add: loopOk_def)
    then show ?thesis using True p assms(1) by (auto simp: endElement_def Let_def)
  next
    case False
    have a: "loopOk st (ls\<lparr>xmlState := XmlStateFoundVersion\<rparr>)"
      and b: "loopOk st (ls\<lparr>xmlState := XmlStateFoundParameters\<rparr>)"
      using pop by (simp_all add: loopOk_def)
    have c: "loopOk st ls" using pop assms(2) by (simp add: loopOk_def)
    show ?thesis using False a b c assms(1) by (auto simp: endElement_def)
  qed
qed

lemma startParameter_ok:
  assumes "wellNested (''parameter'' # st) ts" "loopOk st ls"
  shows "stepOk (startParameter L ls g attrs ts)"
proof (cases "xmlState ls = XmlStateFoundGroup")
  case False
  then show ?thesis by (simp add: startParameter_def)
next
  case True
  then have "''parameter'' \<notin> set st" using loopOk_no_parameter [OF assms(2)] by simp
  then have "loopOk (''parameter'' # st) (ls\<lparr>xmlState := XmlStateFoundParameter, metaData := Some p,
                                  badMetaData := b\<rparr>)" for p b
    by (simp add: loopOk_def)
  moreover have "loopOk (''parameter'' # st) (ls\<lparr>xmlState := XmlStateFoundParameter, metaData := Some p\<rparr>)" for p
    using \<open>''parameter'' \<notin> set st\<close> by (simp add: loopOk_def)
  ultimately show ?thesis using assms(1)
    by (auto simp: startParameter_def Let_def split: option.splits)
qed

lemma metaDataElement_continues:
  assumes "xmlState ls = XmlStateFoundParameter" "metaData ls = Some p"
    and a: "\<And>g'. Q (Continue ls g' ts)"
    and b: "\<And>g'. Q (Continue ls g' (snd (readElementText ts)))"
  shows "Q (metaDataElement L ls g n attrs ts)"
proof -
  obtain tx ts' where r: "readElementText ts = (tx, ts')" by (cases "readElementText ts")
  then have b': "\<And>g'. Q (Continue ls g' ts')" using b by simp
  consider "n = ''short_desc''" | "n = ''long_desc''" | "n = ''min''" | "n = ''max''"
    | "n = ''unit''" | "n = ''decimal''" | "n = ''reboot_required''" | "n = ''values''"
    | "n = ''value''"
    | "n \<notin> set [''short_desc'', ''long_desc'', ''min'', ''max'', ''unit'', ''decimal'',
                  ''reboot_required'', ''values'', ''value'']"
    by auto
  then show ?thesis
  proof cases
    case 1
    then show ?thesis using assms(1,2) a b' r by (simp add: metaDataElement_def)
  next
    case 2
    then show ?thesis using assms(1,2) a b' r by (simp add: metaDataElement_def)
  next
    case 3
    then show ?thesis using assms(1,2) a b' r
      by (simp add: metaDataElement_def split: option.splits)
  next
    case 4
    then show ?thesis using assms(1,2) a b' r
      by (simp add: metaDataElement_def split: option.splits)
  next
    case 5
    then show ?thesis using assms(1,2) a b' r by (simp add: metaDataElement_def)
  next
    case 6
    then show ?thesis using assms(1,2) a b' r
      by (simp add: metaDataElement_def split: option.splits)
  next
    case 7
    then show ?thesis using assms(1,2) a b' r by (simp add: metaDataElement_def)
  next
    case 8
    then show ?thesis using assms(1,2) a b' r by (simp add: metaDataElement_def)
  next
    case 9
    then show ?thesis using assms(1,2) a b' r
      by (simp add: metaDataElement_def Let_def split: option.splits)
  next
    case 10
    then show ?thesis using assms(1,2) a b' r by (simp add: metaDataElement_def)
  qed
qed

lemma metaDataElement_ok:
  assumes "wellNested (n # st) ts" "loopOk st ls" "n \<notin> set structuralNames"
  shows "stepOk (metaDataElement L ls g n attrs ts)"
proof (cases "xmlState ls = XmlStateFoundParameter")
  case False
  then show ?thesis by (simp add: metaDataElement_def)
next
  case True
  then obtain p where p: "metaData ls = Some p" using assms(2) by (auto simp: loopOk_def)
  have push: "\<exists>st'. wellNested st' ts \<and> loopOk st' ls"
    using assms by (auto simp: loopOk_plain_push intro!: exI [of _ "n # st"])
  have rd: "\<exists>st'. wellNested st' (snd (readElementText ts)) \<and> loopOk st' ls"
    using assms(1,2) readElementText_nested [of n st ts "fst (readElementText ts)" "snd (readElementText ts)"]
    by auto
  show ?thesis
    by (rule metaDataElement_continues [OF True p]) (simp_all add: push rd)
qed

lemma startElement_ok:
  assumes "wellNested (n # st) ts" "loopOk st ls"
  shows "stepOk (startElement L ls g n attrs ts)"
proof -
  consider (parameters) "n = ''parameters''" | (version) "n = ''version''" | (grp) "n = ''group''"
    | (parameter) "n = ''parameter''" | (other) "n \<notin> set structuralNames"
    by (auto simp: structuralNames_def)
  then show ?thesis
  proof cases
    case parameters
    show ?thesis
    proof (cases "xmlState ls = XmlStateNone")
      case True
      then have "''parameter'' \<notin> set st" using loopOk_no_parameter [OF assms(2)] by simp
      then have "loopOk (n # st) (ls\<lparr>xmlState := XmlStateFoundParameters\<rparr>)"
        using parameters by (simp add: loopOk_def structuralNames_def insideParameter_def)
      then show ?thesis using parameters True assms(1) by (auto simp: startElement_def)
    next
      case False
      then show ?thesis using parameters by (simp add: startElement_def)
    qed
  next
    case version
    show ?thesis
    proof (cases "xmlState ls = XmlStateFoundParameters")
      case True
      then have "''parameter'' \<notin> set st" using loopOk_no_parameter [OF assms(2)] by simp
      then have "\<not> insideParameter st" by (auto dest: inside_has_parameter)
      then have "loopOk st (ls\<lparr>xmlState := XmlStateFoundVersion\<rparr>)"
        using assms(2) by (simp add: loopOk_def)
      moreover have "wellNested st (snd (readElementText ts))"
        using assms(1) readElementText_nested [of n st ts "fst (readElementText ts)" "snd (readElementText ts)"]
        by simp
      ultimately show ?thesis using version True
        by (auto simp: startElement_def split: prod.splits option.splits)
    next
      case False
      then show ?thesis using version by (simp add: startElement_def)
    qed
  next
    case grp
    show ?thesis
    proof (cases "xmlState ls = XmlStateFoundVersion")
      case True
      then have "''parameter'' \<notin> set st" using loopOk_no_parameter [OF assms(2)] by simp
      then have "loopOk (n # st) (ls\<lparr>xmlState := XmlStateFoundGroup, factGroup := fg\<rparr>)" for fg
        using grp by (simp add: loopOk_def structuralNames_def insideParameter_def)
      then show ?thesis using grp True assms(1) by (auto simp: startElement_def)
    next
      case False
      then show ?thesis using grp by (simp add: startElement_def)
    qed
  next
    case parameter
    then show ?thesis using assms startParameter_ok [of st ts ls L g attrs]
      by (simp add: startElement_def)
  next
    case other
    then have "startElement L ls g n attrs ts = metaDataElement L ls g n attrs ts"
      by (auto simp: startElement_def structuralNames_def)
    then show ?thesis using assms other by (simp add: metaDataElement_ok)
  qed
qed

lemma step_ok:
  assumes "wellNested st (t # ts)" "loopOk st ls"
  shows "stepOk (step L ls g t ts)"
proof (cases t)
  case (StartElement n attrs)
  then show ?thesis using assms by (simp add: startElement_ok)
next
  case (EndElement n)
  then obtain st0 where "st = n # st0" "wellNested st0 ts"
    using assms(1) by (cases st) auto
  then show ?thesis using EndElement assms(2) by (simp add: endElement_ok)
qed (use assms in auto)

lemma loop_returns:
  assumes "wellNested st ts" "loopOk st ls"
  shows "\<exists>g'. loop L ls g ts = Inr g'"
  using assms
proof (induction L ls g ts arbitrary: st rule: loop.induct)
  case (1 L ls g)
  then show ?case by simp
next
  case (2 L ls g t ts)
  have ok: "stepOk (step L ls g t ts)" using "2.prems" by (rule step_ok)
  show ?case
  proof (cases "step L ls g t ts")
    case (Return g')
    then show ?thesis by simp
  next
    case (Crash e)
    then show ?thesis using ok by simp
  next
    case (Continue ls' g' ts')
    then obtain st' where "wellNested st' ts'" "loopOk st' ls'" using ok by auto
    then have "\<exists>g''. loop L ls' g' ts' = Inr g''" using "2.IH" [OF Continue] by simp
    then show ?thesis using Continue by simp
  qed
qed

lemma load_returns:
  assumes "parameterMetaDataLoaded g
           \<or> (mapParameterName2FactMetaData g = [] \<and> src_exists src \<and> src_opens src
              \<and> wellNested [] (src_tokens src))"
  shows "\<exists>g'. loadParameterFactMetaData L src g = Inr g'"
proof (cases "parameterMetaDataLoaded g")
  case True
  then show ?thesis by (simp add: loadParameterFactMetaData_def)
next
  case False
  have "loopOk [] initialLoop"
    by (simp add: loopOk_def initialLoop_def openStructural_def insideParameter_def)
  then have "\<exists>g'. loop L initialLoop (g\<lparr>parameterMetaDataLoaded := True\<rparr>) (src_tokens src) = Inr g'"
    using assms False by (intro loop_returns [of "[]"]) simp_all
  then show ?thesis using assms False by (simp add: loadParameterFactMetaData_def Let_def)
qed

subsection \<open>Attaching meta data to a fact\<close>

lemma attach_after_load:
  assumes "validPointers g" and "loadParameterFactMetaData L src g = Inr g'"
  shows "\<exists>p g''. addMetaDataToFact L src fct g = Inr (fct\<lparr>fact_metaData := Some p\<rparr>, g'')
           \<and> p < length (heap g'')
           \<and> (case map_of (mapParameterName2FactMetaData g') (fact_name fct) of
                 Some q \<Rightarrow> p = q \<and> g'' = g'
               | None \<Rightarrow> heap g'' = heap g' @ [newFactMetaData (fact_type fct)]
                         \<and> heap g'' ! p = newFactMetaData (fact_type fct)
                         \<and> mapParameterName2FactMetaData g'' = mapParameterName2FactMetaData g')"
proof (cases "map_of (mapParameterName2FactMetaData g') (fact_name fct)")
  case None
  then have "addMetaDataToFact L src fct g =
      Inr (fct\<lparr>fact_metaData := Some (length (heap g'))\<rparr>,
           allocate (newFactMetaData (fact_type fct)) g')"
    using assms(2) by (simp add: addMetaDataToFact_def mapContains_def)
  then show ?thesis using None
    by (intro exI [of _ "length (heap g')"]
              exI [of _ "allocate (newFactMetaData (fact_type fct)) g'"]) simp
next
  case (Some q)
  have "validPointers g'" using assms by (rule load_valid [rotated])
  then have "q < length (heap g')"
    using Some by (auto simp: validPointers_def list_all_iff dest: map_of_SomeD)
  moreover have "addMetaDataToFact L src fct g = Inr (fct\<lparr>fact_metaData := Some q\<rparr>, g')"
    using assms(2) Some by (simp add: addMetaDataToFact_def mapContains_def)
  ultimately show ?thesis using Some by simp
qed

text \<open>
  C6. In a state whose pointers are valid and in which the meta data are loaded
  already, or in which the map is still empty and the file exists, opens and holds a
  well-nested token stream (a parameter file or not, and also when the reader reports
  an error at once), \<^verbatim>\<open>addMetaDataToFact\<close> returns for every fact, and a meta data object
  is attached: the pointer stored in the fact points into the store; it is the loaded
  entry when the fact's name is in the map the load has left, and otherwise a newly
  allocated generic object built from the fact's own type, the map being left as it
  was. This covers a load that failed and left the map empty.
\<close>

theorem addMetaDataToFact_attaches:
  assumes "validPointers g"
    and "parameterMetaDataLoaded g
         \<or> (mapParameterName2FactMetaData g = [] \<and> src_exists src \<and> src_opens src
            \<and> wellNested [] (src_tokens src))"
  shows "\<exists>g' p g''. loadParameterFactMetaData L src g = Inr g'
           \<and> addMetaDataToFact L src fct g = Inr (fct\<lparr>fact_metaData := Some p\<rparr>, g'')
           \<and> p < length (heap g'')
           \<and> (case map_of (mapParameterName2FactMetaData g') (fact_name fct) of
                 Some q \<Rightarrow> p = q \<and> g'' = g'
               | None \<Rightarrow> heap g'' = heap g' @ [newFactMetaData (fact_type fct)]
                         \<and> heap g'' ! p = newFactMetaData (fact_type fct)
                         \<and> mapParameterName2FactMetaData g'' = mapParameterName2FactMetaData g')"
proof -
  obtain g' where l: "loadParameterFactMetaData L src g = Inr g'"
    using load_returns [OF assms(2), of L] ..
  from attach_after_load [OF assms(1) l, of fct] show ?thesis using l by blast
qed

text \<open>
  The file could not be read, the map stays empty, and the fact \<^verbatim>\<open>B\<close> still gets a
  generic object of its own type.
\<close>

theorem addMetaDataToFact_attaches_witness:
  "validPointers (initialState :: int px4_state)
   \<and> mapParameterName2FactMetaData (initialState :: int px4_state) = []
   \<and> src_exists failedSource \<and> src_opens failedSource
   \<and> wellNested [] (src_tokens failedSource)
   \<and> loadParameterFactMetaData demoLibrary failedSource initialState =
       Inr \<lparr> parameterMetaDataLoaded = True, mapParameterName2FactMetaData = [], heap = [],
             logged = [BadlyFormedXML] \<rparr>
   \<and> addMetaDataToFact demoLibrary failedSource demoFact initialState =
       Inr (demoFact\<lparr>fact_metaData := Some 0\<rparr>,
            \<lparr> parameterMetaDataLoaded = True, mapParameterName2FactMetaData = [],
              heap = [newFactMetaData valueTypeInt32], logged = [BadlyFormedXML] \<rparr>)"
proof -
  have v: "validPointers (initialState :: int px4_state)"
    by (rule validPointers_initialState)
  have w: "parameterMetaDataLoaded (initialState :: int px4_state)
         \<or> (mapParameterName2FactMetaData (initialState :: int px4_state) = []
            \<and> src_exists failedSource \<and> src_opens failedSource
            \<and> wellNested [] (src_tokens failedSource))"
    by (simp add: initialState_def failedSource_def)
  have l: "loadParameterFactMetaData demoLibrary failedSource initialState =
       Inr \<lparr> parameterMetaDataLoaded = True, mapParameterName2FactMetaData = [], heap = [],
             logged = [BadlyFormedXML] \<rparr>"
    by (rule failed_load)
  have a: "addMetaDataToFact demoLibrary failedSource demoFact initialState =
       Inr (demoFact\<lparr>fact_metaData := Some 0\<rparr>,
            \<lparr> parameterMetaDataLoaded = True, mapParameterName2FactMetaData = [],
              heap = [newFactMetaData valueTypeInt32], logged = [BadlyFormedXML] \<rparr>)"
    by (simp add: addMetaDataToFact_def l mapContains_def demoFact_def allocate_def)
  have s: "mapParameterName2FactMetaData (initialState :: int px4_state) = []
            \<and> src_exists failedSource \<and> src_opens failedSource
            \<and> wellNested [] (src_tokens failedSource)"
    by (simp add: initialState_def failedSource_def)
  from addMetaDataToFact_attaches [OF v w, of demoLibrary demoFact]
  have "\<exists>g'. loadParameterFactMetaData demoLibrary failedSource initialState = Inr g'"
    by blast
  then show ?thesis using v s l a by simp
qed

text \<open>The same fact after the example file is loaded: it gets the loaded entry of \<^verbatim>\<open>B\<close>.\<close>

lemma addMetaDataToFact_loaded_entry:
  "addMetaDataToFact demoLibrary failedSource demoFact demoLoaded =
     Inr (demoFact\<lparr>fact_metaData := Some 1\<rparr>, demoLoaded)"
  by (simp add: addMetaDataToFact_def loadParameterFactMetaData_def demoLoaded_def
        mapContains_def demoFact_def)

subsection \<open>Loading once\<close>

text \<open>
  C7. Loading is lazy and idempotent: a load that returns leaves the loaded flag set;
  a call of \<^verbatim>\<open>addMetaDataToFact\<close> in the same state performs that load, so its state has
  the flag set and the same map; every later call of the load operation, whatever the
  file holds by then, returns the state unchanged; and calling the load operation any
  positive number of times leaves the state of calling it once.
\<close>

theorem load_idempotent:
  assumes "loadParameterFactMetaData L src g = Inr g'"
  shows "parameterMetaDataLoaded g'
       \<and> loadParameterFactMetaData L src' g' = Inr g'
       \<and> loadTimes L src (Suc n) g = Inr g'
       \<and> (\<exists>r. addMetaDataToFact L src fct g = Inr r
              \<and> parameterMetaDataLoaded (snd r)
              \<and> mapParameterName2FactMetaData (snd r) = mapParameterName2FactMetaData g')"
proof -
  have l: "parameterMetaDataLoaded g'" using assms by (rule load_sets_flag)
  then have "loadParameterFactMetaData L src' g' = Inr g'" by (rule load_when_loaded)
  moreover have "loadTimes L src (Suc n) g = Inr g'" using assms l by (simp add: loadTimes_loaded)
  moreover have "\<exists>r. addMetaDataToFact L src fct g = Inr r
              \<and> parameterMetaDataLoaded (snd r)
              \<and> mapParameterName2FactMetaData (snd r) = mapParameterName2FactMetaData g'"
    using assms l by (simp add: addMetaDataToFact_def Let_def)
  ultimately show ?thesis using l by simp
qed

text \<open>
  The example file is loaded once; a second load, now offered a file that cannot be
  read, and three loads in a row all leave the state of the first.
\<close>

lemma demo_load:
  "loadParameterFactMetaData demoLibrary
     (demoSource (demoPrefix @ StartElement ''parameter'' demoAttrs # demoRest)) initialState
   = Inr demoLoaded"
proof -
  have t: "demoToInt ''3'' = Some 3" "demoToInt ''5'' = Some 5" "demoToInt ''7'' = Some 7"
    "demoToInt ''2'' = Some 2"
    by (simp_all add: demoToInt_def isDigit_def digitVal_def)
  show ?thesis
    by (simp add: loadParameterFactMetaData_def demoSource_def demoPrefix_def demoRest_def
          demoAttrs_def demoLoaded_def initialState_def initialLoop_def demoLibrary_def
          startElement_def startParameter_def metaDataElement_def endElement_def
          hasAttribute_def attributeValue_def mapContains_def mapAssign_def allocate_def
          through_def addLog_def newFactMetaData_def Let_def t)
qed

theorem load_idempotent_witness:
  "loadParameterFactMetaData demoLibrary
     (demoSource (demoPrefix @ StartElement ''parameter'' demoAttrs # demoRest)) initialState
     = Inr demoLoaded
   \<and> parameterMetaDataLoaded demoLoaded
   \<and> loadParameterFactMetaData demoLibrary failedSource demoLoaded = Inr demoLoaded
   \<and> loadTimes demoLibrary
       (demoSource (demoPrefix @ StartElement ''parameter'' demoAttrs # demoRest)) 3 initialState
     = Inr demoLoaded"
  using load_idempotent [OF demo_load, of failedSource 2] demo_load
  by (simp add: numeral_3_eq_3)

subsection \<open>Sub-elements are skipped while \<^verbatim>\<open>badMetaData\<close> is set\<close>

lemma step_skips_sub_element:
  assumes "badMetaData ls" "xmlState ls = XmlStateFoundParameter" "subElementToken t"
  shows "step L ls g t ts = Continue ls g ts"
  using assms
  by (cases t) (auto simp: startElement_def metaDataElement_def endElement_def structuralNames_def)

lemma loop_skips_sub_elements:
  assumes "badMetaData ls" "xmlState ls = XmlStateFoundParameter" "list_all subElementToken body"
  shows "loop L ls g (body @ rest) = loop L ls g rest"
  using assms
proof (induction body)
  case Nil
  then show ?case by simp
next
  case (Cons t body)
  then have "step L ls g t (body @ rest) = Continue ls g (body @ rest)"
    by (simp add: step_skips_sub_element)
  with Cons show ?case by simp
qed

subsection \<open>A duplicate parameter name\<close>

lemma startParameter_duplicate:
  assumes "xmlState ls = XmlStateFoundGroup"
    and "hasAttribute attrs ''name''" and "hasAttribute attrs ''type''"
    and "lib_stringToType L (attributeValue attrs ''type'') = Some t"
    and "mapContains g (attributeValue attrs ''name'')"
  shows "startParameter L ls g attrs ts =
         Continue (ls\<lparr>xmlState := XmlStateFoundParameter, metaData := Some (length (heap g)),
                       badMetaData := True\<rparr>)
                  (afterDuplicate (attributeValue attrs ''name'') t g) ts"
  using assms by (simp add: startParameter_def afterDuplicate_def Let_def)

lemma endElement_fresh:
  assumes "metaData ls = Some p" "md_rawDefaultValue (heap g ! p) = None"
  shows "endElement L ls g ''parameter'' ts =
         Continue (ls\<lparr>metaData := None, badMetaData := False, xmlState := XmlStateFoundGroup\<rparr>) g ts"
  using assms by (simp add: endElement_def Let_def)

text \<open>
  C4. When the loader meets a parameter element whose name already has an entry, the
  loop goes on with the tokens after the element instead of returning, in the state
  \<open>g'\<close> in which: the name maps to a newly allocated object that holds nothing but the
  declared type; the store is the old one with that object appended, so no other object
  changed; every other name maps to what it mapped to; the duplicate is logged; and the
  sub-elements of the duplicate have left no trace.
\<close>

theorem duplicate_parameter_replaced:
  assumes "xmlState ls = XmlStateFoundGroup"
    and "hasAttribute attrs ''name''" and "hasAttribute attrs ''type''"
    and "lib_stringToType L (attributeValue attrs ''type'') = Some t"
    and "mapContains g (attributeValue attrs ''name'')"
    and "list_all subElementToken body"
    and "g' = afterDuplicate (attributeValue attrs ''name'') t g"
  shows "loop L ls g (StartElement ''parameter'' attrs # body @ EndElement ''parameter'' # rest) =
         loop L (ls\<lparr>metaData := None, badMetaData := False, xmlState := XmlStateFoundGroup\<rparr>) g' rest
       \<and> map_of (mapParameterName2FactMetaData g') (attributeValue attrs ''name'')
           = Some (length (heap g))
       \<and> heap g' = heap g @ [newFactMetaData t]
       \<and> (\<forall>n. n \<noteq> attributeValue attrs ''name'' \<longrightarrow>
             map_of (mapParameterName2FactMetaData g') n = map_of (mapParameterName2FactMetaData g) n)
       \<and> logged g' = logged g @ [DuplicateParameter (attributeValue attrs ''name'')]
       \<and> parameterMetaDataLoaded g' = parameterMetaDataLoaded g"
proof -
  let ?name = "attributeValue attrs ''name''"
  let ?ls1 = "ls\<lparr>xmlState := XmlStateFoundParameter, metaData := Some (length (heap g)),
                   badMetaData := True\<rparr>"
  have s: "step L ls g (StartElement ''parameter'' attrs) (body @ EndElement ''parameter'' # rest)
           = Continue ?ls1 g' (body @ EndElement ''parameter'' # rest)"
    using assms by (simp add: startElement_def startParameter_duplicate)
  have k: "loop L ?ls1 g' (body @ EndElement ''parameter'' # rest)
           = loop L ?ls1 g' (EndElement ''parameter'' # rest)"
    using assms(6) by (intro loop_skips_sub_elements) simp_all
  have h: "heap g' = heap g @ [newFactMetaData t]"
    using assms(7) by (simp add: afterDuplicate_def)
  have e: "endElement L ?ls1 g' ''parameter'' rest =
           Continue (?ls1\<lparr>metaData := None, badMetaData := False,
                           xmlState := XmlStateFoundGroup\<rparr>) g' rest"
    by (rule endElement_fresh [where p = "length (heap g)"]) (simp_all add: h newFactMetaData_def)
  have "loop L ls g (StartElement ''parameter'' attrs # body @ EndElement ''parameter'' # rest) =
         loop L (ls\<lparr>metaData := None, badMetaData := False, xmlState := XmlStateFoundGroup\<rparr>) g' rest"
    using s k e by simp
  moreover have "map_of (mapParameterName2FactMetaData g') ?name = Some (length (heap g))"
    using assms(7) by (simp add: afterDuplicate_def update_conv')
  moreover have "\<forall>n. n \<noteq> ?name \<longrightarrow>
             map_of (mapParameterName2FactMetaData g') n = map_of (mapParameterName2FactMetaData g) n"
    using assms(7) by (simp add: afterDuplicate_def update_conv')
  moreover have "logged g' = logged g @ [DuplicateParameter ?name]"
    using assms(7) by (simp add: afterDuplicate_def)
  moreover have "parameterMetaDataLoaded g' = parameterMetaDataLoaded g"
    using assms(7) by (simp add: afterDuplicate_def)
  ultimately show ?thesis using h by simp
qed

text \<open>
  After the example file, a second element named \<^verbatim>\<open>B\<close>, of type \<^verbatim>\<open>FLOAT\<close> and with a
  description: the entry of \<^verbatim>\<open>B\<close> becomes a bare \<^verbatim>\<open>FLOAT\<close> object, \<^verbatim>\<open>A\<close> keeps its entry,
  and the loop runs on to the end of the group.
\<close>

theorem duplicate_parameter_replaced_witness:
  "mapContains demoLoaded ''B''
   \<and> list_all subElementToken demoBody
   \<and> loop demoLibrary demoGroupLoop demoLoaded
       (StartElement ''parameter'' demoDuplicateAttrs # demoBody
          @ EndElement ''parameter'' # [EndElement ''group''])
     = Inr (afterDuplicate ''B'' valueTypeFloat demoLoaded)
   \<and> map_of (mapParameterName2FactMetaData (afterDuplicate ''B'' valueTypeFloat demoLoaded)) ''B''
       = Some 2
   \<and> heap (afterDuplicate ''B'' valueTypeFloat demoLoaded)
       = heap demoLoaded @ [newFactMetaData valueTypeFloat]
   \<and> map_of (mapParameterName2FactMetaData (afterDuplicate ''B'' valueTypeFloat demoLoaded)) ''A''
       = Some 0
   \<and> logged (afterDuplicate ''B'' valueTypeFloat demoLoaded) = [DuplicateParameter ''B'']"
proof -
  have 1: "xmlState demoGroupLoop = XmlStateFoundGroup" by (simp add: demoGroupLoop_def)
  have 2: "hasAttribute demoDuplicateAttrs ''name''" "hasAttribute demoDuplicateAttrs ''type''"
    by (simp_all add: hasAttribute_def demoDuplicateAttrs_def)
  have n: "attributeValue demoDuplicateAttrs ''name'' = ''B''"
    by (simp add: attributeValue_def demoDuplicateAttrs_def)
  have 3: "lib_stringToType demoLibrary (attributeValue demoDuplicateAttrs ''type'') = Some valueTypeFloat"
    by (simp add: attributeValue_def demoDuplicateAttrs_def demoLibrary_def)
  have 4: "mapContains demoLoaded (attributeValue demoDuplicateAttrs ''name'')"
    by (simp add: n mapContains_def demoLoaded_def)
  have 5: "list_all subElementToken demoBody"
    by (simp add: demoBody_def structuralNames_def)
  have 6: "afterDuplicate ''B'' valueTypeFloat demoLoaded
           = afterDuplicate (attributeValue demoDuplicateAttrs ''name'') valueTypeFloat demoLoaded"
    by (simp add: n)
  have l: "length (heap demoLoaded) = 2" "logged demoLoaded = []"
    "map_of (mapParameterName2FactMetaData demoLoaded) ''A'' = Some 0"
    by (simp_all add: demoLoaded_def)
  from duplicate_parameter_replaced [OF 1 2 3 4 5 6, of "[EndElement ''group'']"]
  show ?thesis using 4 5 by (simp add: n l endElement_def)
qed

subsection \<open>The first parameter element of a file\<close>

lemma readElementText_before_start:
  "(\<exists>text. \<forall>X. readElementText (pre @ StartElement n a # X) = (text, [])) \<or>
   (\<exists>text pre0 pre'. pre = pre0 @ pre' \<and> pre0 \<noteq> [] \<and>
      (\<forall>X. readElementText (pre @ StartElement n a # X) = (text, pre' @ StartElement n a # X)))"
proof (induction pre)
  case Nil
  then show ?case by simp
next
  case (Cons t pre)
  show ?case
  proof (cases t)
    case (StartElement m b)
    then show ?thesis by simp
  next
    case (EndElement m)
    then have "\<forall>X. readElementText ((t # pre) @ StartElement n a # X) = ([], pre @ StartElement n a # X)"
      by simp
    then show ?thesis by (intro disjI2 exI [of _ "[]"] exI [of _ "[t]"] exI [of _ pre]) simp
  next
    case (Characters c)
    from Cons.IH show ?thesis
    proof
      assume "\<exists>text. \<forall>X. readElementText (pre @ StartElement n a # X) = (text, [])"
      then obtain tx where "\<forall>X. readElementText (pre @ StartElement n a # X) = (tx, [])" ..
      then have "\<forall>X. readElementText ((t # pre) @ StartElement n a # X) = (c @ tx, [])"
        using Characters by simp
      then show ?thesis by blast
    next
      assume "\<exists>text pre0 pre'. pre = pre0 @ pre' \<and> pre0 \<noteq> [] \<and>
        (\<forall>X. readElementText (pre @ StartElement n a # X) = (text, pre' @ StartElement n a # X))"
      then obtain tx pre0 pre' where p: "pre = pre0 @ pre'" and ne: "pre0 \<noteq> []"
        and r: "\<forall>X. readElementText (pre @ StartElement n a # X) = (tx, pre' @ StartElement n a # X)"
        by blast
      have "\<forall>X. readElementText ((t # pre) @ StartElement n a # X) = (c @ tx, pre' @ StartElement n a # X)"
        using Characters r by simp
      moreover have "t # pre = (t # pre0) @ pre'" using p by simp
      ultimately show ?thesis by blast
    qed
  next
    case Comment
    from Cons.IH show ?thesis
    proof
      assume "\<exists>text. \<forall>X. readElementText (pre @ StartElement n a # X) = (text, [])"
      then obtain tx where "\<forall>X. readElementText (pre @ StartElement n a # X) = (tx, [])" ..
      then have "\<forall>X. readElementText ((t # pre) @ StartElement n a # X) = (tx, [])"
        using Comment by simp
      then show ?thesis by blast
    next
      assume "\<exists>text pre0 pre'. pre = pre0 @ pre' \<and> pre0 \<noteq> [] \<and>
        (\<forall>X. readElementText (pre @ StartElement n a # X) = (text, pre' @ StartElement n a # X))"
      then obtain tx pre0 pre' where p: "pre = pre0 @ pre'" and ne: "pre0 \<noteq> []"
        and r: "\<forall>X. readElementText (pre @ StartElement n a # X) = (tx, pre' @ StartElement n a # X)"
        by blast
      have "\<forall>X. readElementText ((t # pre) @ StartElement n a # X) = (tx, pre' @ StartElement n a # X)"
        using Comment r by simp
      moreover have "t # pre = (t # pre0) @ pre'" using p by simp
      ultimately show ?thesis by blast
    qed
  next
    case OtherToken
    then show ?thesis by simp
  qed
qed

lemma step_version:
  assumes "xmlState ls = XmlStateFoundParameters"
  shows "step L ls g (StartElement ''version'' attrs) ts =
           (case lib_toInt L (fst (readElementText ts)) of
              None \<Rightarrow> Return (addLog BadlyFormedXML g)
            | Some v \<Rightarrow> if v \<le> 2 then Return (addLog (VersionTooOld v) g)
                        else Continue (ls\<lparr>xmlState := XmlStateFoundVersion\<rparr>) g
                               (snd (readElementText ts)))"
  using assms by (simp add: startElement_def split: prod.splits option.splits)

lemma startElement_bad_other:
  assumes "badMetaData ls" "n \<noteq> ''parameter''"
    and "\<not> (n = ''version'' \<and> xmlState ls = XmlStateFoundParameters)"
  shows "case startElement L ls g n attrs ts of
           Return g' \<Rightarrow> startElement L ls g n attrs ts2 = Return g'
         | Crash e \<Rightarrow> False
         | Continue ls' g' ts' \<Rightarrow>
             ts' = ts \<and> badMetaData ls' \<and> startElement L ls g n attrs ts2 = Continue ls' g' ts2"
  using assms by (simp add: startElement_def metaDataElement_def)

lemma endElement_bad_other:
  assumes "badMetaData ls" "n \<noteq> ''parameter''"
  shows "case endElement L ls g n ts of
           Return g' \<Rightarrow> endElement L ls g n ts2 = Return g'
         | Crash e \<Rightarrow> False
         | Continue ls' g' ts' \<Rightarrow>
             ts' = ts \<and> badMetaData ls' \<and> endElement L ls g n ts2 = Continue ls' g' ts2"
  using assms by (simp add: endElement_def)

lemma step_bad_other:
  assumes "badMetaData ls" "notParameterTag t"
    and "\<not> (versionStart t \<and> xmlState ls = XmlStateFoundParameters)"
  shows "case step L ls g t ts of
           Return g' \<Rightarrow> step L ls g t ts2 = Return g'
         | Crash e \<Rightarrow> False
         | Continue ls' g' ts' \<Rightarrow>
             ts' = ts \<and> badMetaData ls' \<and> step L ls g t ts2 = Continue ls' g' ts2"
proof (cases t)
  case (StartElement n attrs)
  then show ?thesis using assms startElement_bad_other [where ls = ls and n = n and L = L and g = g and attrs = attrs and ts = ts and ?ts2.0 = ts2]
    by (simp split: step_result.splits)
next
  case (EndElement n)
  then show ?thesis using assms endElement_bad_other [where ls = ls and n = n and L = L and g = g and ts = ts and ?ts2.0 = ts2]
    by (simp split: step_result.splits)
qed (use assms in simp_all)

lemma loop_congruent_before_first_parameter:
  assumes "\<And>ls g. badMetaData ls \<Longrightarrow>
             loop L ls g (StartElement n a # Y) = loop L ls g (StartElement n a # Z)"
    and "badMetaData ls" and "list_all notParameterTag pre"
  shows "loop L ls g (pre @ StartElement n a # Y) = loop L ls g (pre @ StartElement n a # Z)"
  using assms(2,3)
proof (induction "length pre" arbitrary: pre ls g rule: less_induct)
  case less
  show ?case
  proof (cases pre)
    case Nil
    then show ?thesis using assms(1) less.prems by simp
  next
    case (Cons t pre1)
    then have t: "notParameterTag t" and p1: "list_all notParameterTag pre1"
      using less.prems by simp_all
    let ?Y = "pre1 @ StartElement n a # Y" and ?Z = "pre1 @ StartElement n a # Z"
    show ?thesis
    proof (cases "versionStart t \<and> xmlState ls = XmlStateFoundParameters")
      case False
      note o = step_bad_other [OF less.prems(1) t False, where L = L and g = g and ts = ?Y and ?ts2.0 = ?Z]
      show ?thesis
      proof (cases "step L ls g t ?Y")
        case (Return g')
        then show ?thesis using o Cons by simp
      next
        case (Crash e)
        then show ?thesis using o by simp
      next
        case (Continue ls' g' ts')
        then have c: "ts' = ?Y" "badMetaData ls'" "step L ls g t ?Z = Continue ls' g' ?Z"
          using o by simp_all
        have "loop L ls' g' ?Y = loop L ls' g' ?Z"
          using less.hyps [of pre1 ls' g'] c(2) p1 Cons by simp
        then show ?thesis using Continue c Cons by simp
      qed
    next
      case True
      then obtain attrs where tv: "t = StartElement ''version'' attrs"
        by (cases t) simp_all
      note sv = step_version [of ls L g attrs] True [THEN conjunct2]
      have b': "badMetaData (ls\<lparr>xmlState := XmlStateFoundVersion\<rparr>)" using less.prems(1) by simp
      from readElementText_before_start [of pre1 n a]
      show ?thesis
      proof
        assume "\<exists>tx. \<forall>X. readElementText (pre1 @ StartElement n a # X) = (tx, [])"
        then obtain tx where "\<forall>X. readElementText (pre1 @ StartElement n a # X) = (tx, [])" ..
        then have "readElementText ?Y = (tx, [])" "readElementText ?Z = (tx, [])" by simp_all
        then show ?thesis using sv Cons tv by (simp split: option.splits)
      next
        assume "\<exists>tx pre0 pre'. pre1 = pre0 @ pre' \<and> pre0 \<noteq> [] \<and>
          (\<forall>X. readElementText (pre1 @ StartElement n a # X) = (tx, pre' @ StartElement n a # X))"
        then obtain tx pre0 pre' where d: "pre1 = pre0 @ pre'" "pre0 \<noteq> []"
          and r: "\<forall>X. readElementText (pre1 @ StartElement n a # X) = (tx, pre' @ StartElement n a # X)"
          by blast
        have ry: "readElementText ?Y = (tx, pre' @ StartElement n a # Y)"
          and rz: "readElementText ?Z = (tx, pre' @ StartElement n a # Z)" using r by simp_all
        have "length pre' < length pre" using d Cons by simp
        moreover have "list_all notParameterTag pre'" using p1 d by simp
        ultimately have "loop L (ls\<lparr>xmlState := XmlStateFoundVersion\<rparr>) g (pre' @ StartElement n a # Y)
                       = loop L (ls\<lparr>xmlState := XmlStateFoundVersion\<rparr>) g (pre' @ StartElement n a # Z)"
          using less.hyps [of pre' "ls\<lparr>xmlState := XmlStateFoundVersion\<rparr>" g] b' by simp
        then show ?thesis using sv Cons tv ry rz by (simp split: option.splits)
      qed
    qed
  qed
qed

lemma startParameter_keeps_bad:
  assumes "badMetaData ls"
  shows "case startParameter L ls g attrs ts of
           Return g' \<Rightarrow> startParameter L ls g attrs ts2 = Return g'
         | Crash e \<Rightarrow> False
         | Continue ls' g' ts' \<Rightarrow>
             ts' = ts \<and> badMetaData ls' \<and> xmlState ls' = XmlStateFoundParameter \<and>
             startParameter L ls g attrs ts2 = Continue ls' g' ts2"
  using assms
  by (simp add: startParameter_def Let_def split: option.splits)

lemma first_parameter_body_skipped:
  assumes "badMetaData ls" "list_all subElementToken body"
  shows "loop L ls g (StartElement ''parameter'' attrs # body @ rest) =
         loop L ls g (StartElement ''parameter'' attrs # rest)"
proof (cases "startParameter L ls g attrs (body @ rest)")
  case (Return g')
  then have "startParameter L ls g attrs rest = Return g'"
    using startParameter_keeps_bad [OF assms(1), where L = L and g = g and attrs = attrs and ts = "body @ rest" and ?ts2.0 = rest] by simp
  with Return show ?thesis by (simp add: startElement_def)
next
  case (Crash e)
  then show ?thesis
    using startParameter_keeps_bad [OF assms(1), where L = L and g = g and attrs = attrs and ts = "body @ rest" and ?ts2.0 = rest] by simp
next
  case (Continue ls' g' ts')
  then have c: "ts' = body @ rest" "badMetaData ls'" "xmlState ls' = XmlStateFoundParameter"
      "startParameter L ls g attrs rest = Continue ls' g' rest"
    using startParameter_keeps_bad [OF assms(1), where L = L and g = g and attrs = attrs and ts = "body @ rest" and ?ts2.0 = rest] by simp_all
  have "loop L ls' g' (body @ rest) = loop L ls' g' rest"
    using c(2,3) assms(2) by (rule loop_skips_sub_elements)
  then show ?thesis using Continue c by (simp add: startElement_def)
qed

text \<open>
  C5. \<^verbatim>\<open>badMetaData\<close> starts out true and only the end of a parameter element clears it.
  So for a file whose tokens before the first parameter start tag hold no parameter
  tag, the sub-elements of the first parameter element are skipped: the load gives the
  result it gives for the file without them. What the first parameter keeps is what the
  start tag alone sets, as for a duplicate, whose sub-elements are skipped the same way.
\<close>

theorem first_parameter_sub_elements_skipped:
  assumes "list_all notParameterTag pre" and "list_all subElementToken body"
  shows "loadParameterFactMetaData L
           (src\<lparr>src_tokens := pre @ StartElement ''parameter'' attrs # body @ rest\<rparr>) g
       = loadParameterFactMetaData L
           (src\<lparr>src_tokens := pre @ StartElement ''parameter'' attrs # rest\<rparr>) g"
proof -
  have "loop L initialLoop g1 (pre @ StartElement ''parameter'' attrs # body @ rest)
      = loop L initialLoop g1 (pre @ StartElement ''parameter'' attrs # rest)"
    for g1 :: "'a px4_state"
  proof (rule loop_congruent_before_first_parameter)
    show "badMetaData initialLoop" by (simp add: initialLoop_def)
    show "list_all notParameterTag pre" by (rule assms(1))
    show "loop L ls g (StartElement ''parameter'' attrs # body @ rest) =
          loop L ls g (StartElement ''parameter'' attrs # rest)" if "badMetaData ls"
      for ls and g :: "'a px4_state"
      using that assms(2) by (rule first_parameter_body_skipped)
  qed
  then show ?thesis by (simp add: loadParameterFactMetaData_def Let_def)
qed

text \<open>
  In the example file the first parameter \<^verbatim>\<open>A\<close> has a short description and a minimum,
  and its object ends up with name, group and default only; the second parameter \<^verbatim>\<open>B\<close>
  gets its minimum.
\<close>

theorem first_parameter_sub_elements_skipped_witness:
  "list_all notParameterTag demoPrefix
   \<and> list_all subElementToken demoBody
   \<and> loadParameterFactMetaData demoLibrary
       (demoSource (demoPrefix @ StartElement ''parameter'' demoAttrs # demoBody @ demoRest))
       initialState
     = Inr demoLoaded
   \<and> heap demoLoaded ! 0 =
       (newFactMetaData valueTypeInt32)
         \<lparr>md_name := ''A'', md_group := ''Attitude'', md_rawDefaultValue := Some 5\<rparr>"
proof -
  have 1: "list_all notParameterTag demoPrefix" by (simp add: demoPrefix_def)
  have 2: "list_all subElementToken demoBody" by (simp add: demoBody_def structuralNames_def)
  have "demoSource (demoPrefix @ StartElement ''parameter'' demoAttrs # demoBody @ demoRest)
        = (demoSource [])\<lparr>src_tokens := demoPrefix @ StartElement ''parameter'' demoAttrs # demoBody @ demoRest\<rparr>"
    and "demoSource (demoPrefix @ StartElement ''parameter'' demoAttrs # demoRest)
        = (demoSource [])\<lparr>src_tokens := demoPrefix @ StartElement ''parameter'' demoAttrs # demoRest\<rparr>"
    by (simp_all add: demoSource_def)
  then have "loadParameterFactMetaData demoLibrary
       (demoSource (demoPrefix @ StartElement ''parameter'' demoAttrs # demoBody @ demoRest))
       initialState = Inr demoLoaded"
    using first_parameter_sub_elements_skipped [OF 1 2, where L = demoLibrary and src = "demoSource []"
        and attrs = demoAttrs and rest = demoRest and g = initialState]
      demo_load by simp
  then show ?thesis using 1 2 by (simp add: demoLoaded_def)
qed

section \<open>Properties of the synchronization engine\<close>

subsection \<open>Retry counts stay within the budget\<close>

lemma retriesWithin_Nil [simp]: "retriesWithin []"
  by (simp add: retriesWithin_def)

lemma retriesWithin_stillWaiting [simp]: "retriesWithin (stillWaiting m)"
  by (auto simp: retriesWithin_def stillWaiting_def list_all_iff)

lemma retriesWithin_delete: "retriesWithin m \<Longrightarrow> retriesWithin (AList.delete k m)"
  by (auto simp: retriesWithin_def AList.delete_eq list_all_iff)

lemma retriesWithin_update: "retriesWithin m \<Longrightarrow> retriesWithin (AList.update k 0 m)"
  by (simp add: retriesWithin_def list_all_update)

lemma retriesWithin_fresh [simp]: "retriesWithin (map (\<lambda>i. (i, 0)) xs)"
  by (simp add: retriesWithin_def list_all_iff)

lemma componentBounded_new [simp]: "componentBounded (newComponent n)"
  by (simp add: componentBounded_def newComponent_def)

lemma componentBounded_update: "componentBounded c \<Longrightarrow> componentBounded (componentUpdate name idx v c)"
  by (simp add: componentBounded_def componentUpdate_def retriesWithin_delete)

lemma componentBounded_timeout [simp]: "componentBounded (componentTimeout c)"
  by (simp add: componentBounded_def componentTimeout_def)

lemma componentBounded_refresh [simp]: "componentBounded (componentRefresh c)"
  by (simp add: componentBounded_def componentRefresh_def)

lemma components_check [simp]: "components (checkInitialLoadComplete e) = components e"
  by (simp add: checkInitialLoadComplete_def)

lemma engineBounded_check [simp]: "engineBounded (checkInitialLoadComplete e) = engineBounded e"
  by (simp add: engineBounded_def)

lemma list_all_onComponent:
  assumes "list_all (\<lambda>(cid, c). P c) cs" and "\<And>c. P c \<Longrightarrow> P (f c)"
  shows "list_all (\<lambda>(cid, c). P c) (onComponent k f cs)"
  using assms by (auto simp: onComponent_def list_all_iff split: if_splits)

lemma engineBounded_apply: "engineBounded e \<Longrightarrow> engineBounded (apply_event ev e)"
proof (cases ev)
  case (ParameterUpdate cid name count idx v)
  assume b: "engineBounded e"
  let ?cs = "if map_of (components e) cid = None
             then components e @ [(cid, newComponent count)] else components e"
  have "list_all (\<lambda>(cid, c). componentBounded c) ?cs"
    using b by (simp add: engineBounded_def)
  then have "list_all (\<lambda>(cid, c). componentBounded c) (onComponent cid (componentUpdate name idx v) ?cs)"
    by (rule list_all_onComponent) (rule componentBounded_update)
  then show ?thesis using ParameterUpdate
    by (simp add: parameterUpdate_def Let_def engineBounded_def)
next
  case WaitingParamTimeout
  then show ?thesis
    by (simp add: waitingParamTimeout_def engineBounded_def list_all_iff split_def)
next
  case (RefreshAllParameters target)
  assume "engineBounded e"
  then show ?thesis using RefreshAllParameters
    by (auto simp: refreshAllParameters_def engineBounded_def list_all_iff split: if_splits)
next
  case (RefreshParameter cid name)
  assume "engineBounded e"
  then have "list_all (\<lambda>(cid, c). componentBounded c) (components e)"
    by (simp add: engineBounded_def)
  then have "list_all (\<lambda>(cid, c). componentBounded c)
     (onComponent cid (\<lambda>c. c\<lparr>waitingReadParamName := AList.update name 0 (waitingReadParamName c)\<rparr>)
           (components e))"
    by (rule list_all_onComponent) (simp add: componentBounded_def retriesWithin_update)
  then show ?thesis using RefreshParameter by (simp add: refreshParameter_def engineBounded_def)
next
  case (WriteParameterRaw cid name)
  assume "engineBounded e"
  then have "list_all (\<lambda>(cid, c). componentBounded c) (components e)"
    by (simp add: engineBounded_def)
  then have "list_all (\<lambda>(cid, c). componentBounded c)
     (onComponent cid (\<lambda>c. c\<lparr>waitingWriteParamName := AList.update name 0 (waitingWriteParamName c)\<rparr>)
           (components e))"
    by (rule list_all_onComponent) (simp add: componentBounded_def retriesWithin_update)
  then show ?thesis using WriteParameterRaw by (simp add: writeParameterRaw_def engineBounded_def)
qed

lemma engineBounded_run: "engineBounded e \<Longrightarrow> engineBounded (run evs e)"
  by (induction evs arbitrary: e) (simp_all add: engineBounded_apply)

lemma engineBounded_initial [simp]: "engineBounded initialEngine"
  by (simp add: engineBounded_def initialEngine_def)

lemma in_addFailed: "i \<in> set (addFailed new failed) \<longleftrightarrow> i \<in> set new \<or> i \<in> set failed"
  by (induction new arbitrary: failed) auto

lemma exhausted_given_up:
  "(k, r) \<in> set m \<Longrightarrow> maxInitialLoadRetry \<le> r \<Longrightarrow> k \<in> set (givenUp m)"
  by (force simp: givenUp_def bumped_def)

lemma exhausted_not_waiting:
  "distinct (map fst m) \<Longrightarrow> (k, r) \<in> set m \<Longrightarrow> maxInitialLoadRetry \<le> r
     \<Longrightarrow> k \<notin> fst ` set (stillWaiting m)"
  by (auto simp: stillWaiting_def bumped_def dest: eq_key_imp_eq_value)

lemma waiting_bumped:
  "(k, r) \<in> set m \<Longrightarrow> r < maxInitialLoadRetry \<Longrightarrow> (k, Suc r) \<in> set (stillWaiting m)"
  by (force simp: stillWaiting_def bumped_def)

lemma indicesOfNames_mono:
  "set ns \<subseteq> set ns' \<Longrightarrow> set (indicesOfNames m ns) \<subseteq> set (indicesOfNames m ns')"
  by (auto simp: indicesOfNames_def)

subsection \<open>The bookkeeping of indices\<close>

lemma map_fst_bumped [simp]: "map fst (bumped m) = map fst m"
  by (simp add: bumped_def split_def)

lemma distinct_stillWaiting: "distinct (map fst m) \<Longrightarrow> distinct (map fst (stillWaiting m))"
  unfolding stillWaiting_def
  by (metis distinct_map_filter map_fst_bumped)

lemma keys_stillWaiting: "fst ` set (stillWaiting m) \<subseteq> fst ` set m"
  by (force simp: stillWaiting_def bumped_def)

lemma keys_givenUp: "set (givenUp m) \<subseteq> fst ` set m"
  by (force simp: givenUp_def bumped_def)

lemma distinct_addFailed: "distinct failed \<Longrightarrow> distinct (addFailed new failed)"
  by (induction new arbitrary: failed) auto

lemma set_indicesOfNames: "set (indicesOfNames id2name ns) \<subseteq> fst ` set id2name"
  by (force simp: indicesOfNames_def)

lemma componentInv_new [simp]: "componentInv (newComponent n)"
  by (simp add: componentInv_def newComponent_def list_all_iff comp_def distinct_map inj_on_def)

lemma componentInv_refresh: "componentInv c \<Longrightarrow> componentInv (componentRefresh c)"
  by (simp add: componentInv_def componentRefresh_def list_all_iff comp_def distinct_map inj_on_def)

lemma list_all_delete: "list_all P m \<Longrightarrow> list_all P (AList.delete k m)"
  by (auto simp: AList.delete_eq list_all_iff)

lemma componentInv_update:
  "componentInv c \<Longrightarrow> idx < paramCount c \<Longrightarrow> componentInv (componentUpdate name idx v c)"
  by (simp add: componentInv_def componentUpdate_def distinct_delete list_all_delete)

lemma componentInv_timeout: "componentInv c \<Longrightarrow> componentInv (componentTimeout c)"
proof -
  assume i: "componentInv c"
  have 1: "distinct (map fst (stillWaiting (waitingReadParamIndex c)))"
    using i by (simp add: componentInv_def distinct_stillWaiting)
  have 2: "list_all (\<lambda>(i, r). i < paramCount c) (stillWaiting (waitingReadParamIndex c))"
    using i keys_stillWaiting [of "waitingReadParamIndex c"]
    by (fastforce simp: componentInv_def list_all_iff)
  let ?new = "givenUp (waitingReadParamIndex c)
                @ indicesOfNames (parameterId2Name c) (givenUp (waitingReadParamName c))"
  have 3: "distinct (addFailed ?new (failedReadParamIndex c))"
    using i by (simp add: componentInv_def distinct_addFailed)
  have "\<forall>j \<in> set ?new. j < paramCount c"
    using i keys_givenUp [of "waitingReadParamIndex c"]
      set_indicesOfNames [of "parameterId2Name c" "givenUp (waitingReadParamName c)"]
    by (fastforce simp: componentInv_def list_all_iff)
  then have 4: "list_all (\<lambda>i. i < paramCount c) (addFailed ?new (failedReadParamIndex c))"
    using i by (auto simp: componentInv_def list_all_iff in_addFailed)
  show ?thesis using i 1 2 3 4 by (simp add: componentInv_def componentTimeout_def)
qed

lemma engineInv_check [simp]: "engineInv (checkInitialLoadComplete e) = engineInv e"
  by (simp add: engineInv_def)

lemma engineInv_apply:
  assumes "engineInv e" "wfEvent e ev"
  shows "engineInv (apply_event ev e)"
proof (cases ev)
  case (ParameterUpdate cid name count idx v)
  let ?cs = "if map_of (components e) cid = None
             then components e @ [(cid, newComponent count)] else components e"
  have a: "list_all (\<lambda>(k, c). componentInv c \<and> (k \<noteq> cid \<or> idx < paramCount c)) ?cs"
    using assms ParameterUpdate componentInv_new [of count]
    by (auto simp: engineInv_def list_all_iff newComponent_def)
  have "list_all (\<lambda>(k, c). componentInv c) (onComponent cid (componentUpdate name idx v) ?cs)"
    using a unfolding onComponent_def list_all_iff
    by (auto simp: componentInv_update split: if_splits)
  then show ?thesis using ParameterUpdate
    by (simp add: parameterUpdate_def Let_def engineInv_def)
next
  case WaitingParamTimeout
  then show ?thesis using assms(1)
    by (auto simp: waitingParamTimeout_def engineInv_def list_all_iff componentInv_timeout)
next
  case (RefreshAllParameters target)
  then show ?thesis using assms(1)
    by (auto simp: refreshAllParameters_def engineInv_def list_all_iff componentInv_refresh
             split: if_splits)
next
  case (RefreshParameter cid name)
  have "list_all (\<lambda>(cid, c). componentInv c)
     (onComponent cid (\<lambda>c. c\<lparr>waitingReadParamName := AList.update name 0 (waitingReadParamName c)\<rparr>)
           (components e))"
    using assms(1) unfolding engineInv_def
    by (rule list_all_onComponent) (simp add: componentInv_def)
  then show ?thesis using RefreshParameter by (simp add: refreshParameter_def engineInv_def)
next
  case (WriteParameterRaw cid name)
  have "list_all (\<lambda>(cid, c). componentInv c)
     (onComponent cid (\<lambda>c. c\<lparr>waitingWriteParamName := AList.update name 0 (waitingWriteParamName c)\<rparr>)
           (components e))"
    using assms(1) unfolding engineInv_def
    by (rule list_all_onComponent) (simp add: componentInv_def)
  then show ?thesis using WriteParameterRaw by (simp add: writeParameterRaw_def engineInv_def)
qed

lemma engineInv_run: "engineInv e \<Longrightarrow> wfRun e evs \<Longrightarrow> engineInv (run evs e)"
  by (induction evs arbitrary: e) (simp_all add: engineInv_apply)

lemma engineInv_initial [simp]: "engineInv initialEngine"
  by (simp add: engineInv_def initialEngine_def)

subsection \<open>Confirmed, pending and failed indices cover the count\<close>

lemma paramCount_simps [simp]:
  "paramCount (componentTimeout c) = paramCount c"
  "paramCount (componentUpdate name idx v c) = paramCount c"
  "paramCount (componentRefresh c) = paramCount c"
  by (simp_all add: componentTimeout_def componentUpdate_def componentRefresh_def)

lemma failed_update [simp]:
  "failedReadParamIndex (componentUpdate name idx v c) = failedReadParamIndex c"
  by (simp add: componentUpdate_def)

lemma confirmed_timeout [simp]: "confirmed (componentTimeout c) i = confirmed c i"
  by (simp add: confirmed_def componentTimeout_def cong: option.case_cong)

lemma confirmed_refresh [simp]: "confirmed (componentRefresh c) i = confirmed c i"
  by (simp add: confirmed_def componentRefresh_def cong: option.case_cong)

lemma confirmed_pending_maps [simp]:
  "confirmed (c\<lparr>waitingReadParamName := a\<rparr>) i = confirmed c i"
  "confirmed (c\<lparr>waitingWriteParamName := b\<rparr>) i = confirmed c i"
  by (simp_all add: confirmed_def cong: option.case_cong)

lemma named_after_update:
  "map_of (if map_of m idx = None then m @ [(idx, name)] else m) i =
     (case map_of m i of Some n \<Rightarrow> Some n | None \<Rightarrow> if i = idx then Some name else None)"
  by (auto simp: map_add_def split: option.splits)

lemma confirmed_update_kept: "confirmed c i \<Longrightarrow> confirmed (componentUpdate name idx v c) i"
  by (auto simp: confirmed_def componentUpdate_def named_after_update update_conv'
           split: option.splits)

lemma confirmed_update_new:
  assumes "list_all (\<lambda>(i, n). map_of (parameterName2Variant c) n \<noteq> None) (parameterId2Name c)"
  shows "confirmed (componentUpdate name idx v c) idx"
proof (cases "map_of (parameterId2Name c) idx")
  case None
  then show ?thesis by (simp add: confirmed_def componentUpdate_def map_add_def update_conv')
next
  case (Some n)
  then have "(idx, n) \<in> set (parameterId2Name c)" by (rule map_of_SomeD)
  then have "map_of (parameterName2Variant c) n \<noteq> None" using assms by (auto simp: list_all_iff)
  then show ?thesis using Some
    by (simp add: confirmed_def componentUpdate_def update_conv')
qed

lemma keys_delete: "fst ` set (AList.delete k m) = fst ` set m - {k}"
  by (force simp: AList.delete_eq)

lemma waiting_or_given_up:
  assumes "k \<in> fst ` set m"
  shows "k \<in> fst ` set (stillWaiting m) \<or> k \<in> set (givenUp m)"
proof -
  from assms obtain r where r: "(k, r) \<in> set m" by auto
  show ?thesis
  proof (cases "r < maxInitialLoadRetry")
    case True
    then have "(k, Suc r) \<in> set (stillWaiting m)" using r by (simp add: waiting_bumped)
    then show ?thesis by force
  next
    case False
    then show ?thesis using r by (simp add: exhausted_given_up)
  qed
qed

lemma componentCovered_new [simp]: "componentCovered (newComponent n)"
  by (simp add: componentCovered_def newComponent_def list_all_iff image_image)

lemma componentCovered_refresh: "componentCovered c \<Longrightarrow> componentCovered (componentRefresh c)"
  by (simp add: componentCovered_def componentRefresh_def list_all_iff image_image)

lemma componentCovered_pending_maps [simp]:
  "componentCovered (c\<lparr>waitingReadParamName := a\<rparr>) = componentCovered c"
  "componentCovered (c\<lparr>waitingWriteParamName := b\<rparr>) = componentCovered c"
  by (simp_all add: componentCovered_def)

lemma componentCovered_timeout:
  assumes "componentCovered c"
  shows "componentCovered (componentTimeout c)"
proof -
  have "i \<in> fst ` set (waitingReadParamIndex (componentTimeout c))
        \<or> i \<in> set (failedReadParamIndex (componentTimeout c)) \<or> confirmed c i"
    if "i < paramCount c" for i
  proof -
    have "i \<in> fst ` set (waitingReadParamIndex c) \<or> i \<in> set (failedReadParamIndex c)
          \<or> confirmed c i"
      using assms that by (simp add: componentCovered_def list_all_iff)
    then show ?thesis
      using waiting_or_given_up [of i "waitingReadParamIndex c"]
      by (auto simp: componentTimeout_def in_addFailed)
  qed
  moreover have "parameterId2Name (componentTimeout c) = parameterId2Name c"
    "parameterName2Variant (componentTimeout c) = parameterName2Variant c"
    by (simp_all add: componentTimeout_def)
  ultimately show ?thesis using assms by (simp add: componentCovered_def list_all_iff)
qed

lemma componentCovered_update:
  assumes "componentCovered c"
  shows "componentCovered (componentUpdate name idx v c)"
proof -
  let ?c = "componentUpdate name idx v c"
  have nv: "list_all (\<lambda>(i, n). map_of (parameterName2Variant c) n \<noteq> None) (parameterId2Name c)"
    using assms by (simp add: componentCovered_def)
  have 1: "i \<in> fst ` set (waitingReadParamIndex ?c) \<or> i \<in> set (failedReadParamIndex ?c)
           \<or> confirmed ?c i"
    if "i < paramCount c" for i
  proof (cases "i = idx")
    case True
    then show ?thesis using nv by (simp add: confirmed_update_new)
  next
    case False
    have "i \<in> fst ` set (waitingReadParamIndex c) \<or> i \<in> set (failedReadParamIndex c)
          \<or> confirmed c i"
      using assms that by (simp add: componentCovered_def list_all_iff)
    moreover have "waitingReadParamIndex ?c = AList.delete idx (waitingReadParamIndex c)"
      by (simp add: componentUpdate_def)
    ultimately show ?thesis using False by (auto simp: keys_delete confirmed_update_kept)
  qed
  have 2: "list_all (\<lambda>(i, n). map_of (parameterName2Variant ?c) n \<noteq> None) (parameterId2Name ?c)"
    using nv by (auto simp: componentUpdate_def list_all_iff update_conv')
  show ?thesis using 1 2 by (simp add: componentCovered_def list_all_iff)
qed

lemma engineCovered_check [simp]: "engineCovered (checkInitialLoadComplete e) = engineCovered e"
  by (simp add: engineCovered_def)

lemma engineCovered_apply: "engineCovered e \<Longrightarrow> engineCovered (apply_event ev e)"
proof (cases ev)
  case (ParameterUpdate cid name count idx v)
  assume b: "engineCovered e"
  let ?cs = "if map_of (components e) cid = None
             then components e @ [(cid, newComponent count)] else components e"
  have "list_all (\<lambda>(cid, c). componentCovered c) ?cs"
    using b by (simp add: engineCovered_def)
  then have "list_all (\<lambda>(cid, c). componentCovered c) (onComponent cid (componentUpdate name idx v) ?cs)"
    by (rule list_all_onComponent) (rule componentCovered_update)
  then show ?thesis using ParameterUpdate
    by (simp add: parameterUpdate_def Let_def engineCovered_def)
next
  case WaitingParamTimeout
  assume "engineCovered e"
  then show ?thesis using WaitingParamTimeout
    by (auto simp: waitingParamTimeout_def engineCovered_def list_all_iff componentCovered_timeout)
next
  case (RefreshAllParameters target)
  assume "engineCovered e"
  then show ?thesis using RefreshAllParameters
    by (auto simp: refreshAllParameters_def engineCovered_def list_all_iff componentCovered_refresh
             split: if_splits)
next
  case (RefreshParameter cid name)
  assume "engineCovered e"
  then have "list_all (\<lambda>(cid, c). componentCovered c) (components e)"
    by (simp add: engineCovered_def)
  then have "list_all (\<lambda>(cid, c). componentCovered c)
     (onComponent cid (\<lambda>c. c\<lparr>waitingReadParamName := AList.update name 0 (waitingReadParamName c)\<rparr>)
           (components e))"
    by (rule list_all_onComponent) simp
  then show ?thesis using RefreshParameter by (simp add: refreshParameter_def engineCovered_def)
next
  case (WriteParameterRaw cid name)
  assume "engineCovered e"
  then have "list_all (\<lambda>(cid, c). componentCovered c) (components e)"
    by (simp add: engineCovered_def)
  then have "list_all (\<lambda>(cid, c). componentCovered c)
     (onComponent cid (\<lambda>c. c\<lparr>waitingWriteParamName := AList.update name 0 (waitingWriteParamName c)\<rparr>)
           (components e))"
    by (rule list_all_onComponent) simp
  then show ?thesis using WriteParameterRaw by (simp add: writeParameterRaw_def engineCovered_def)
qed

lemma engineCovered_run: "engineCovered e \<Longrightarrow> engineCovered (run evs e)"
  by (induction evs arbitrary: e) (simp_all add: engineCovered_apply)

lemma engineCovered_initial [simp]: "engineCovered initialEngine"
  by (simp add: engineCovered_def initialEngine_def)

subsection \<open>Counting the indices\<close>

lemma length_filter_mem:
  assumes "distinct ys" "set ys \<subseteq> {0..<n}"
  shows "length (filter (\<lambda>i. i \<in> set ys) [0..<n]) = length ys"
proof -
  have "set (filter (\<lambda>i. i \<in> set ys) [0..<n]) = set ys" using assms(2) by auto
  moreover have "distinct (filter (\<lambda>i. i \<in> set ys) [0..<n])" by simp
  ultimately show ?thesis using assms(1) by (metis distinct_card)
qed

lemma complete_when_nothing_pending:
  assumes "componentInv c" "componentCovered c" "waitingReadParamIndex c = []"
  shows "componentComplete c"
proof -
  let ?f = "failedReadParamIndex c" and ?n = "paramCount c"
  have "set ?f \<subseteq> {0..<?n}" using assms(1) by (auto simp: componentInv_def list_all_iff)
  then have "length (filter (\<lambda>i. i \<in> set ?f) [0..<?n]) = length ?f"
    using assms(1) by (intro length_filter_mem) (simp_all add: componentInv_def)
  moreover have "length (filter (\<lambda>i. i \<in> set ?f) [0..<?n])
     + length (filter (\<lambda>i. \<not> i \<in> set ?f) [0..<?n]) = ?n"
    using sum_length_filter_compl [of "\<lambda>i. i \<in> set ?f" "[0..<?n]"] by simp
  moreover have "resolvedIndices c = filter (\<lambda>i. \<not> i \<in> set ?f) [0..<?n]"
    using assms(2,3)
    by (auto simp: resolvedIndices_def componentCovered_def list_all_iff intro!: filter_cong)
  ultimately show ?thesis by (simp add: componentComplete_def)
qed

subsection \<open>Every timer firing ages what is pending\<close>

lemma map_of_known: "map_of (known e) cid = None \<longleftrightarrow> map_of (components e) cid = None"
  by (simp add: known_def map_of_eq_None_iff image_image split_def)

lemma known_onComponent:
  assumes "\<And>c. paramCount (f c) = paramCount c"
  shows "map (\<lambda>(cid, c). (cid, paramCount c)) (onComponent k f cs)
       = map (\<lambda>(cid, c). (cid, paramCount c)) cs"
  using assms by (induction cs) (auto simp: onComponent_def)

lemma known_apply:
  assumes "quietFor (known e) ev"
  shows "known (apply_event ev e) = known e"
proof (cases ev)
  case (ParameterUpdate cid name count idx v)
  then have "map_of (components e) cid \<noteq> None" using assms by (simp add: map_of_known)
  then show ?thesis using ParameterUpdate
    by (simp add: parameterUpdate_def known_def known_onComponent)
next
  case WaitingParamTimeout
  then show ?thesis by (simp add: waitingParamTimeout_def known_def split_def)
qed (use assms in simp_all)

lemma quiet_wf:
  assumes "quietFor (known e) ev"
  shows "wfEvent e ev"
proof (cases ev)
  case (ParameterUpdate cid name count idx v)
  then have "map_of (components e) cid \<noteq> None" using assms by (simp add: map_of_known)
  moreover have "list_all (\<lambda>(k, c). k \<noteq> cid \<or> idx < paramCount c) (components e)"
    using assms ParameterUpdate by (auto simp: known_def list_all_iff)
  ultimately show ?thesis using ParameterUpdate by simp
qed simp_all

lemma agedAtLeast_Nil [simp]: "agedAtLeast n []"
  by (simp add: agedAtLeast_def)

lemma agedAtLeast_delete: "agedAtLeast n m \<Longrightarrow> agedAtLeast n (AList.delete k m)"
  by (simp add: agedAtLeast_def list_all_delete)

lemma agedAtLeast_stillWaiting: "agedAtLeast n m \<Longrightarrow> agedAtLeast (Suc n) (stillWaiting m)"
  by (auto simp: agedAtLeast_def stillWaiting_def bumped_def list_all_iff)

lemma componentAged_timeout: "componentAged n c \<Longrightarrow> componentAged (Suc n) (componentTimeout c)"
  by (simp add: componentAged_def componentTimeout_def agedAtLeast_stillWaiting)

lemma componentAged_update: "componentAged n c \<Longrightarrow> componentAged n (componentUpdate name idx v c)"
  by (simp add: componentAged_def componentUpdate_def agedAtLeast_delete)

lemma engineAged_check [simp]: "engineAged n (checkInitialLoadComplete e) = engineAged n e"
  by (simp add: engineAged_def)

lemma engineAged_timeout: "engineAged n e \<Longrightarrow> engineAged (Suc n) (waitingParamTimeout e)"
  by (auto simp: engineAged_def waitingParamTimeout_def list_all_iff componentAged_timeout)

lemma engineAged_update:
  assumes "engineAged n e" "map_of (components e) cid \<noteq> None"
  shows "engineAged n (parameterUpdate cid name count idx v e)"
proof -
  have "list_all (\<lambda>(cid, c). componentAged n c)
          (onComponent cid (componentUpdate name idx v) (components e))"
    using assms(1) unfolding engineAged_def
    by (rule list_all_onComponent) (rule componentAged_update)
  moreover have "(if map_of (components e) cid = None
          then components e @ [(cid, newComponent count)] else components e) = components e"
    using assms(2) by simp
  ultimately show ?thesis by (simp add: parameterUpdate_def engineAged_def)
qed

lemma engineAged_run:
  assumes "engineAged n e" "list_all (quietFor (known e)) evs"
  shows "engineAged (n + ticks evs) (run evs e)"
  using assms
proof (induction evs arbitrary: e n)
  case Nil
  then show ?case by (simp add: ticks_def)
next
  case (Cons ev evs)
  then have q: "quietFor (known e) ev" and qs: "list_all (quietFor (known (apply_event ev e))) evs"
    by (simp_all add: known_apply)
  show ?case
  proof (cases ev)
    case WaitingParamTimeout
    then have "engineAged (Suc n) (apply_event ev e)"
      using Cons.prems(1) by (simp add: engineAged_timeout)
    from Cons.IH [OF this qs] show ?thesis using WaitingParamTimeout by (simp add: ticks_def)
  next
    case (ParameterUpdate cid name count idx v)
    then have "engineAged n (apply_event ev e)"
      using Cons.prems(1) q by (simp add: engineAged_update map_of_known)
    from Cons.IH [OF this qs] show ?thesis using ParameterUpdate by (simp add: ticks_def)
  qed (use q in simp_all)
qed

lemma engineAged_zero [simp]: "engineAged 0 e"
  by (simp add: engineAged_def componentAged_def agedAtLeast_def list_all_iff)

lemma engineAged_mono: "engineAged n e \<Longrightarrow> m \<le> n \<Longrightarrow> engineAged m e"
  by (fastforce simp: engineAged_def componentAged_def agedAtLeast_def list_all_iff)

lemma aged_bounded_empty:
  assumes "agedAtLeast (Suc maxInitialLoadRetry) m" "retriesWithin m"
  shows "m = []"
proof (cases m)
  case (Cons kr m')
  then show ?thesis using assms by (cases kr) (simp add: agedAtLeast_def retriesWithin_def)
qed simp

lemma aged_bounded_idle:
  assumes "engineAged (Suc maxInitialLoadRetry) e" "engineBounded e"
  shows "list_all (\<lambda>(cid, c). componentIdle c) (components e)"
  using assms
  by (auto simp: engineAged_def engineBounded_def list_all_iff componentAged_def
        componentBounded_def componentIdle_def intro: aged_bounded_empty)

lemma ready_after_check:
  assumes "list_all (\<lambda>(cid, c). componentComplete c) (components e)"
  shows "initialLoadComplete (checkInitialLoadComplete e)"
  using assms by (simp add: checkInitialLoadComplete_def)

lemma check_idem [simp]:
  "checkInitialLoadComplete (checkInitialLoadComplete e) = checkInitialLoadComplete e"
  by (simp add: checkInitialLoadComplete_def)

lemma quiet_run_checked:
  assumes "list_all (quietFor ks) evs" "evs \<noteq> []"
  shows "checkInitialLoadComplete (run evs e) = run evs e"
  using assms
proof (induction evs arbitrary: e)
  case Nil
  then show ?case by simp
next
  case (Cons ev evs)
  show ?case
  proof (cases "evs = []")
    case True
    then show ?thesis using Cons.prems(1)
      by (cases ev) (simp_all add: parameterUpdate_def waitingParamTimeout_def Let_def)
  next
    case False
    then show ?thesis using Cons by simp
  qed
qed

lemma quiet_run_complete:
  assumes "engineInv s" "engineBounded s" "engineCovered s"
    and "list_all (quietFor (known s)) evs" and "maxInitialLoadRetry < ticks evs"
  shows "initialLoadComplete (run evs s)
       \<and> list_all (\<lambda>(cid, c). componentIdle c \<and> componentComplete c) (components (run evs s))"
proof -
  let ?s' = "run evs s"
  have wf: "wfRun s evs" using assms(4)
  proof (induction evs arbitrary: s)
    case Nil
    then show ?case by simp
  next
    case (Cons ev evs)
    then show ?case by (simp add: quiet_wf known_apply)
  qed
  have inv: "engineInv ?s'" using assms(1) wf by (rule engineInv_run)
  have bnd: "engineBounded ?s'" using assms(2) by (rule engineBounded_run)
  have cov: "engineCovered ?s'" using assms(3) by (rule engineCovered_run)
  have "engineAged (0 + ticks evs) ?s'" using assms(4) by (intro engineAged_run) simp_all
  then have "engineAged (Suc maxInitialLoadRetry) ?s'"
    using assms(5) by (auto intro: engineAged_mono)
  then have idle: "list_all (\<lambda>(cid, c). componentIdle c) (components ?s')"
    using bnd by (rule aged_bounded_idle)
  have compl: "list_all (\<lambda>(cid, c). componentComplete c) (components ?s')"
    using idle inv cov
    by (auto simp: list_all_iff engineInv_def engineCovered_def componentIdle_def
             intro: complete_when_nothing_pending)
  have "evs \<noteq> []" using assms(5) by (auto simp: ticks_def)
  then have "checkInitialLoadComplete ?s' = ?s'"
    using assms(4) by (intro quiet_run_checked)
  then have "initialLoadComplete ?s'" using ready_after_check [OF compl] by simp
  then show ?thesis using idle compl by (auto simp: list_all_iff)
qed

subsection \<open>One signal per epoch\<close>

lemma stillWaiting_Nil [simp]: "stillWaiting [] = []"
  by (simp add: stillWaiting_def bumped_def)

lemma givenUp_Nil [simp]: "givenUp [] = []"
  by (simp add: givenUp_def bumped_def)

lemma indicesOfNames_Nil [simp]: "indicesOfNames m [] = []"
  by (simp add: indicesOfNames_def)




lemma componentEpoch_refresh [simp]: "componentEpoch (componentRefresh c)"
  by (simp add: componentEpoch_def componentRefresh_def)






lemma anyFailed_check [simp]: "anyFailed (checkInitialLoadComplete e) = anyFailed e"
  by (simp add: anyFailed_def)





subsection \<open>The signal is sent when the load completes\<close>


lemma wfRun_append: "wfRun e (xs @ ys) = (wfRun e xs \<and> wfRun (run xs e) ys)"
  by (induction xs arbitrary: e) simp_all












lemma componentEpoch_new [simp]: "componentEpoch (newComponent n)"
  by (simp add: componentEpoch_def newComponent_def)





subsection \<open>The example runs, evaluated\<close>

lemma upt_3: "[0..<3] = [0, 1, 2]"
  by (simp add: upt_rec)

lemmas engine_eval =
  parameterUpdate_def onComponent_def componentUpdate_def newComponent_def
  checkInitialLoadComplete_def componentComplete_def resolvedIndices_def confirmed_def
  anyFailed_def
  waitingParamTimeout_def componentTimeout_def stillWaiting_def bumped_def givenUp_def
  indicesOfNames_def maxInitialLoadRetry_def Let_def upt_3

lemma scenario_start: "run scenarioStart initialEngine = scenarioLoading"
  by (simp add: scenarioStart_def scenarioLoading_def initialEngine_def engine_eval)

lemma scenario_wf: "wfRun initialEngine scenarioStart"
  by (simp add: scenarioStart_def initialEngine_def engine_eval)

lemma scenario_ticks: "run scenarioTicks scenarioLoading = scenarioReady"
  by (simp add: scenarioTicks_def scenarioLoading_def scenarioReady_def engine_eval eval_nat_numeral)

lemma scenario_quiet: "list_all (quietFor (known scenarioLoading)) scenarioTicks"
  by (simp add: scenarioTicks_def list_all_iff)

lemma scenario_count: "ticks scenarioTicks = 11"
  by (simp add: scenarioTicks_def ticks_def)







lemma budget_timeout:
  "componentTimeout budgetComponent =
     \<lparr> paramCount = 3, waitingReadParamIndex = [], waitingReadParamName = [],
       waitingWriteParamName = [(''P0'', 4)], failedReadParamIndex = [1, 0],
       parameterId2Name = [(0, ''P0''), (2, ''P2'')],
       parameterName2Variant = [(''P0'', 10), (''P2'', 30)] \<rparr>"
  by (simp add: budgetComponent_def engine_eval)



text \<open>
  The late component: the signal is sent when component 1 is complete; the index of
  component 2 that fails afterwards is not in its flag.
\<close>

lemma late_component:
  "wfRun initialEngine (lateStart @ scenarioTicks)
   \<and> firstReady (lateStart @ scenarioTicks) initialEngine = Some lateFirst
   \<and> run (lateStart @ scenarioTicks) initialEngine = lateEnd
   \<and> \<not> anyFailed lateFirst \<and> anyFailed lateEnd"
proof -
  have 1: "run [ParameterUpdate 1 ''P0'' 1 0 10] initialEngine = lateFirst"
    by (simp add: initialEngine_def lateFirst_def engine_eval)
  have 2: "run (lateStart @ scenarioTicks) initialEngine = lateEnd"
    by (simp add: lateStart_def scenarioTicks_def initialEngine_def lateEnd_def engine_eval
          eval_nat_numeral upt_rec)
  have "wfRun e (replicate n WaitingParamTimeout)" for n and e :: "int engine"
    by (induction n arbitrary: e) simp_all
  then have "wfRun (run lateStart initialEngine) scenarioTicks" by (simp add: scenarioTicks_def)
  moreover have "wfRun initialEngine lateStart"
    by (simp add: lateStart_def initialEngine_def engine_eval)
  ultimately have 3: "wfRun initialEngine (lateStart @ scenarioTicks)" by (simp add: wfRun_append)
  have 4: "firstReady (lateStart @ scenarioTicks) initialEngine = Some lateFirst"
    using 1 by (simp add: lateStart_def lateFirst_def)
  show ?thesis using 2 3 4 by (simp add: anyFailed_def lateFirst_def lateEnd_def)
qed

subsection \<open>The claims about the engine\<close>

text \<open>
  C1. From any state a run of well-formed events has reached, a stretch of events in
  which no new component appears and nothing new is requested, and in which the
  timer fires more often than the retry budget, ends in a state where the initial
  load is complete (the Ready state, with or without missing parameters) and where,
  for every component whose count is known, nothing is pending and the number of
  resolved indices (those whose value is confirmed and that are neither pending nor
  failed) plus the number of failed indices is the count.
\<close>

theorem bulk_load_terminates:
  assumes "wfRun initialEngine evs0" and "s = run evs0 initialEngine"
    and "list_all (quietFor (known s)) evs" and "maxInitialLoadRetry < ticks evs"
  shows "initialLoadComplete (run evs s)
       \<and> list_all (\<lambda>(cid, c). componentIdle c
             \<and> length (resolvedIndices c) + length (failedReadParamIndex c) = paramCount c)
           (components (run evs s))"
proof -
  have "engineInv s" using assms(1,2) by (simp add: engineInv_run)
  moreover have "engineBounded s" using assms(2) by (simp add: engineBounded_run)
  moreover have "engineCovered s" using assms(2) by (simp add: engineCovered_run)
  ultimately have "initialLoadComplete (run evs s)
       \<and> list_all (\<lambda>(cid, c). componentIdle c \<and> componentComplete c) (components (run evs s))"
    using assms(3,4) by (rule quiet_run_complete)
  then show ?thesis by (auto simp: list_all_iff componentComplete_def)
qed

text \<open>
  The scenario of the spec: index 1 of three never answers; after eleven timer
  firings the load is complete, the indices 0 and 2 are resolved and 1 has failed.
\<close>

theorem bulk_load_terminates_witness:
  "wfRun initialEngine scenarioStart
   \<and> list_all (quietFor (known (run scenarioStart initialEngine))) scenarioTicks
   \<and> maxInitialLoadRetry < ticks scenarioTicks
   \<and> initialLoadComplete (run scenarioTicks (run scenarioStart initialEngine))
   \<and> list_all (\<lambda>(cid, c). componentIdle c
         \<and> length (resolvedIndices c) + length (failedReadParamIndex c) = paramCount c)
       (components (run scenarioTicks (run scenarioStart initialEngine)))
   \<and> run scenarioTicks (run scenarioStart initialEngine) = scenarioReady
   \<and> map (\<lambda>(cid, c). (resolvedIndices c, failedReadParamIndex c)) (components scenarioReady)
       = [([0, 2], [1])]"
proof -
  have q: "list_all (quietFor (known (run scenarioStart initialEngine))) scenarioTicks"
    by (simp add: scenario_start scenario_quiet)
  have t: "maxInitialLoadRetry < ticks scenarioTicks"
    by (simp add: scenario_count maxInitialLoadRetry_def)
  have r: "map (\<lambda>(cid, c). (resolvedIndices c, failedReadParamIndex c)) (components scenarioReady)
       = [([0, 2], [1])]"
    by (simp add: scenarioReady_def resolvedIndices_def confirmed_def upt_3)
  from bulk_load_terminates [OF scenario_wf refl q t]
  show ?thesis using q t r scenario_wf
    by (simp add: scenario_start scenario_ticks)
qed

text \<open>
  C2. In every state a run reaches, every retry count of the three pending maps is at
  most the budget of 10. A timer firing raises the count of an entry below the budget;
  an entry that has used up the budget is removed from its map: a read by index goes
  to the failed indices, a read by name puts the index of its name there, and a write
  is dropped, the failed indices being those of the reads only.
\<close>

theorem retry_budget_respected:
  "engineBounded (run evs initialEngine)
   \<and> ((k, r) \<in> set (waitingReadParamIndex c) \<and> r < maxInitialLoadRetry \<longrightarrow>
        (k, Suc r) \<in> set (waitingReadParamIndex (componentTimeout c)))
   \<and> (distinct (map fst (waitingReadParamIndex c)) \<and> (k, r) \<in> set (waitingReadParamIndex c)
        \<and> maxInitialLoadRetry \<le> r \<longrightarrow>
        k \<notin> fst ` set (waitingReadParamIndex (componentTimeout c))
        \<and> k \<in> set (failedReadParamIndex (componentTimeout c)))
   \<and> (distinct (map fst (waitingReadParamName c)) \<and> (n, r) \<in> set (waitingReadParamName c)
        \<and> maxInitialLoadRetry \<le> r \<longrightarrow>
        n \<notin> fst ` set (waitingReadParamName (componentTimeout c))
        \<and> set (indicesOfNames (parameterId2Name c) [n])
             \<subseteq> set (failedReadParamIndex (componentTimeout c)))
   \<and> (distinct (map fst (waitingWriteParamName c)) \<and> (n, r) \<in> set (waitingWriteParamName c)
        \<and> maxInitialLoadRetry \<le> r \<longrightarrow>
        n \<notin> fst ` set (waitingWriteParamName (componentTimeout c))
        \<and> failedReadParamIndex (componentTimeout c)
            = addFailed (givenUp (waitingReadParamIndex c)
                           @ indicesOfNames (parameterId2Name c) (givenUp (waitingReadParamName c)))
                        (failedReadParamIndex c))"
proof -
  have 1: "engineBounded (run evs initialEngine)" by (simp add: engineBounded_run)
  have 2: "(k, r) \<in> set (waitingReadParamIndex c) \<and> r < maxInitialLoadRetry \<longrightarrow>
        (k, Suc r) \<in> set (waitingReadParamIndex (componentTimeout c))"
    by (simp add: componentTimeout_def waiting_bumped)
  have 3: "distinct (map fst (waitingReadParamIndex c)) \<and> (k, r) \<in> set (waitingReadParamIndex c)
        \<and> maxInitialLoadRetry \<le> r \<longrightarrow>
        k \<notin> fst ` set (waitingReadParamIndex (componentTimeout c))
        \<and> k \<in> set (failedReadParamIndex (componentTimeout c))"
    using exhausted_not_waiting [of "waitingReadParamIndex c" k r]
      exhausted_given_up [of k r "waitingReadParamIndex c"]
    by (simp add: componentTimeout_def in_addFailed)
  have 4: "distinct (map fst (waitingReadParamName c)) \<and> (n, r) \<in> set (waitingReadParamName c)
        \<and> maxInitialLoadRetry \<le> r \<longrightarrow>
        n \<notin> fst ` set (waitingReadParamName (componentTimeout c))
        \<and> set (indicesOfNames (parameterId2Name c) [n])
             \<subseteq> set (failedReadParamIndex (componentTimeout c))"
  proof (intro impI)
    assume a: "distinct (map fst (waitingReadParamName c)) \<and> (n, r) \<in> set (waitingReadParamName c)
        \<and> maxInitialLoadRetry \<le> r"
    then have "n \<in> set (givenUp (waitingReadParamName c))" by (auto intro: exhausted_given_up)
    then have "set (indicesOfNames (parameterId2Name c) [n])
       \<subseteq> set (indicesOfNames (parameterId2Name c) (givenUp (waitingReadParamName c)))"
      by (intro indicesOfNames_mono) simp
    then have "set (indicesOfNames (parameterId2Name c) [n])
             \<subseteq> set (failedReadParamIndex (componentTimeout c))"
      by (auto simp: componentTimeout_def in_addFailed)
    moreover have "n \<notin> fst ` set (waitingReadParamName (componentTimeout c))"
      using a exhausted_not_waiting [of "waitingReadParamName c" n r]
      by (simp add: componentTimeout_def)
    ultimately show "n \<notin> fst ` set (waitingReadParamName (componentTimeout c))
        \<and> set (indicesOfNames (parameterId2Name c) [n])
             \<subseteq> set (failedReadParamIndex (componentTimeout c))" by simp
  qed
  have 5: "distinct (map fst (waitingWriteParamName c)) \<and> (n, r) \<in> set (waitingWriteParamName c)
        \<and> maxInitialLoadRetry \<le> r \<longrightarrow>
        n \<notin> fst ` set (waitingWriteParamName (componentTimeout c))
        \<and> failedReadParamIndex (componentTimeout c)
            = addFailed (givenUp (waitingReadParamIndex c)
                           @ indicesOfNames (parameterId2Name c) (givenUp (waitingReadParamName c)))
                        (failedReadParamIndex c)"
    using exhausted_not_waiting [of "waitingWriteParamName c" n r]
    by (simp add: componentTimeout_def)
  show ?thesis using 1 2 3 4 5 by blast
qed

theorem retry_budget_respected_witness:
  "engineBounded (run (scenarioStart @ scenarioTicks) initialEngine)
   \<and> (''P0'', 3) \<in> set (waitingWriteParamName budgetComponent)
   \<and> (''P0'', 4) \<in> set (waitingWriteParamName (componentTimeout budgetComponent))
   \<and> (1, 10) \<in> set (waitingReadParamIndex budgetComponent)
   \<and> 1 \<notin> fst ` set (waitingReadParamIndex (componentTimeout budgetComponent))
   \<and> 1 \<in> set (failedReadParamIndex (componentTimeout budgetComponent))
   \<and> (''P0'', 10) \<in> set (waitingReadParamName budgetComponent)
   \<and> ''P0'' \<notin> fst ` set (waitingReadParamName (componentTimeout budgetComponent))
   \<and> 0 \<in> set (failedReadParamIndex (componentTimeout budgetComponent))
   \<and> (''P2'', 10) \<in> set (waitingWriteParamName budgetComponent)
   \<and> ''P2'' \<notin> fst ` set (waitingWriteParamName (componentTimeout budgetComponent))
   \<and> failedReadParamIndex (componentTimeout budgetComponent) = [1, 0]"
  using retry_budget_respected
          [of "scenarioStart @ scenarioTicks" 1 10 budgetComponent "''P0''"]
        retry_budget_respected
          [of "scenarioStart @ scenarioTicks" 1 10 budgetComponent "''P2''"]
  by (simp add: budget_timeout) (simp add: budgetComponent_def)



end
